theory Spec2Isabelle
  imports Complex_Main "HOL-Library.Char_ord" "HOL-Library.List_Lexorder"
begin

section \<open>Python values and builtins used by the two scripts\<close>

text \<open>
  The scripts \<^verbatim>\<open>generate_geo_summary.py\<close> and \<^verbatim>\<open>generate_subnet_map.py\<close> read the
  rows that \<^verbatim>\<open>csv.DictReader\<close> yields and work on dictionaries of cells. A cell is a
  Python \<^verbatim>\<open>str\<close>, or \<^verbatim>\<open>None\<close> when the row is shorter than the header line (the
  reader fills the missing cells with its \<^verbatim>\<open>restval\<close>, which is \<^verbatim>\<open>None\<close>). A cell is
  therefore a \<open>string option\<close>. A \<open>char\<close> stands for one code point below 256.
\<close>

type_synonym pyval = "string option"

datatype py_error = TypeError | AttributeError | ValueError

text \<open>Truth value of a cell in a condition: \<^verbatim>\<open>None\<close> and \<^verbatim>\<open>''\<close> are false.\<close>

definition truthy :: "pyval \<Rightarrow> bool" where
  "truthy v = (case v of None \<Rightarrow> False | Some s \<Rightarrow> s \<noteq> [])"

text \<open>What an f-string prints for a cell: \<^verbatim>\<open>str(None)\<close> is \<^verbatim>\<open>'None'\<close>.\<close>

definition py_str :: "pyval \<Rightarrow> string" where
  "py_str v = (case v of None \<Rightarrow> ''None'' | Some s \<Rightarrow> s)"

text \<open>\<^verbatim>\<open>str.isspace\<close> on the code points below 256, and \<^verbatim>\<open>str.strip()\<close>.\<close>

definition isspace :: "char \<Rightarrow> bool" where
  "isspace c = (c \<in> set [CHR 0x09, CHR 0x0A, CHR 0x0B, CHR 0x0C, CHR 0x0D,
                          CHR 0x1C, CHR 0x1D, CHR 0x1E, CHR 0x1F, CHR 0x20,
                          CHR 0x85, CHR 0xA0])"

definition strip :: "string \<Rightarrow> string" where
  "strip s = rev (dropWhile isspace (rev (dropWhile isspace s)))"

text \<open>\<^verbatim>\<open>s.split(sep)\<close> for a one-character separator: never an empty list.\<close>

fun split_acc :: "char \<Rightarrow> string \<Rightarrow> string \<Rightarrow> string list" where
  "split_acc sep acc [] = [rev acc]"
| "split_acc sep acc (c # cs) =
     (if c = sep then rev acc # split_acc sep [] cs else split_acc sep (c # acc) cs)"

definition py_split :: "string \<Rightarrow> char \<Rightarrow> string list" where
  "py_split s sep = split_acc sep [] s"

text \<open>\<^verbatim>\<open>sep.join(parts)\<close>, used to state what \<open>py_split\<close> computes.\<close>

fun py_join :: "char \<Rightarrow> string list \<Rightarrow> string" where
  "py_join sep [] = []"
| "py_join sep [p] = p"
| "py_join sep (p # q # ps) = p @ sep # py_join sep (q # ps)"

text \<open>
  A \<^verbatim>\<open>defaultdict(list)\<close> keeps its keys in the order of their first insertion, which is
  the order \<^verbatim>\<open>.items()\<close> iterates in: an association list. \<open>dd_append d k v\<close> is
  \<^verbatim>\<open>d[k].append(v)\<close>.
\<close>

type_synonym ('k, 'v) defaultdict = "('k \<times> 'v list) list"

fun dd_append :: "('k, 'v) defaultdict \<Rightarrow> 'k \<Rightarrow> 'v \<Rightarrow> ('k, 'v) defaultdict" where
  "dd_append [] k v = [(k, [v])]"
| "dd_append ((k', vs) # d) k v =
     (if k' = k then (k', vs @ [v]) # d else (k', vs) # dd_append d k v)"

text \<open>\<^verbatim>\<open>Counter(iterable)\<close>: counts per element, keys in the order of first occurrence.\<close>

fun counter_add :: "('k \<times> nat) list \<Rightarrow> 'k \<Rightarrow> ('k \<times> nat) list" where
  "counter_add [] k = [(k, 1)]"
| "counter_add ((k', c) # d) k =
     (if k' = k then (k', Suc c) # d else (k', c) # counter_add d k)"

definition Counter :: "'k list \<Rightarrow> ('k \<times> nat) list" where
  "Counter xs = fold (\<lambda>k d. counter_add d k) xs []"

text \<open>
  \<^verbatim>\<open>sorted(xs, key=key, reverse=True)\<close>: descending by key, and stable (Python keeps the
  input order of elements with equal keys also under \<^verbatim>\<open>reverse=True\<close>).
\<close>

fun insort_desc :: "('a \<Rightarrow> nat) \<Rightarrow> 'a \<Rightarrow> 'a list \<Rightarrow> 'a list" where
  "insort_desc key x [] = [x]"
| "insort_desc key x (y # ys) =
     (if key y \<le> key x then x # y # ys else y # insort_desc key x ys)"

definition sorted_reverse :: "('a \<Rightarrow> nat) \<Rightarrow> 'a list \<Rightarrow> 'a list" where
  "sorted_reverse key xs = foldr (insort_desc key) xs []"

text \<open>The distinct elements of a list in the order of their first occurrence.\<close>

definition first_occ :: "'a list \<Rightarrow> 'a list" where
  "first_occ xs = rev (remdups (rev xs))"


section \<open>The text report: \<^verbatim>\<open>generate_geo_summary.py\<close>\<close>

subsection \<open>Record loader\<close>

record node =
  node_id :: pyval
  dc_id :: pyval
  dc_owner :: pyval
  dc_region :: pyval
  change_type :: pyval
  constraint_violation :: pyval
  reward_region :: pyval

text \<open>A row of \<^verbatim>\<open>csv.DictReader\<close>: a dictionary from column names to cells.\<close>

type_synonym row = "string \<rightharpoonup> pyval"

text \<open>\<^verbatim>\<open>row.get(key, default)\<close>: the default only when the key is absent.\<close>

definition row_get :: "row \<Rightarrow> string \<Rightarrow> string \<Rightarrow> pyval" where
  "row_get r key dflt = (case r key of None \<Rightarrow> Some dflt | Some v \<Rightarrow> v)"

definition read_subnet_data :: "row list \<Rightarrow> node list" where
  "read_subnet_data rows =
     map (\<lambda>r. \<lparr> node_id = row_get r ''node_id'' '''',
                dc_id = row_get r ''node_operator_dc'' '''',
                dc_owner = row_get r ''dc_owner'' '''',
                dc_region = row_get r ''dc_region'' '''',
                change_type = row_get r ''change_type'' ''UNCHANGED'',
                constraint_violation = row_get r ''constraint_violation'' '''',
                reward_region = row_get r ''reward_region'' '''' \<rparr>) rows"

subsection \<open>Region parse and grouping (\<^verbatim>\<open>analyze_geographic_distribution\<close>)\<close>

text \<open>
  Lines 43 to 52: the continent, country and city of a \<^verbatim>\<open>dc_region\<close> cell. Without a
  comma the cell itself is the continent, unchanged.
\<close>

definition text_region :: "pyval \<Rightarrow> pyval \<times> string \<times> string" where
  "text_region region =
     (case region of
        None \<Rightarrow> (region, [], [])
      | Some s \<Rightarrow>
          if s \<noteq> [] \<and> CHR '','' \<in> set s then
            (let parts = map strip (py_split s CHR '','') in
             if 3 \<le> length parts then (Some (parts ! 0), parts ! 1, parts ! 2)
             else if length parts = 2 then (Some (parts ! 0), parts ! 1, [])
             else (Some (parts ! 0), [], []))
          else (region, [], []))"

record node_info =
  info_node_id :: string
  info_dc_id :: pyval
  info_dc_owner :: pyval
  info_change_type :: pyval
  violations :: pyval
  city :: string

text \<open>\<^verbatim>\<open>node['node_id'][:20] + '...'\<close>: subscripting \<^verbatim>\<open>None\<close> raises \<^verbatim>\<open>TypeError\<close>.\<close>

definition short_id :: "pyval \<Rightarrow> py_error + string" where
  "short_id v = (case v of None \<Rightarrow> Inl TypeError | Some s \<Rightarrow> Inr (take 20 s @ ''...''))"

definition make_info :: "node \<Rightarrow> string \<Rightarrow> py_error + node_info" where
  "make_info n cty =
     (case short_id (node_id n) of
        Inl e \<Rightarrow> Inl e
      | Inr nid \<Rightarrow>
          Inr \<lparr> info_node_id = nid, info_dc_id = dc_id n, info_dc_owner = dc_owner n,
                info_change_type = change_type n, violations = constraint_violation n,
                city = cty \<rparr>)"

type_synonym groupings =
  "(string, node_info) defaultdict \<times> (string, node_info) defaultdict \<times>
   (pyval, node_info) defaultdict"

fun analyze_loop :: "node list \<Rightarrow> groupings \<Rightarrow> py_error + groupings" where
  "analyze_loop [] acc = Inr acc"
| "analyze_loop (n # ns) (regions, countries, continents) =
     (case text_region (dc_region n) of
        (continent, country, cty) \<Rightarrow>
          (case make_info n cty of
             Inl e \<Rightarrow> Inl e
           | Inr info \<Rightarrow>
               analyze_loop ns
                 (dd_append regions (py_str continent @ '','' @ country) info,
                  dd_append countries country info,
                  dd_append continents continent info)))"

definition analyze_geographic_distribution :: "node list \<Rightarrow> py_error + groupings" where
  "analyze_geographic_distribution nodes = analyze_loop nodes ([], [], [])"

subsection \<open>Markers and the per-node violation test\<close>

text \<open>
  The dictionary \<^verbatim>\<open>colors\<close> of \<^verbatim>\<open>print_geographic_summary\<close> (green, red, blue and
  yellow circles) and the white circle that \<^verbatim>\<open>colors.get(change_type, ...)\<close> falls
  back to.
\<close>

datatype icon = Green | Red | Blue | Yellow | White

definition colors :: "(string \<times> icon) list" where
  "colors = [(''ADDED'', Green), (''REMOVED'', Red), (''UNCHANGED'', Blue),
             (''VIOLATION'', Yellow)]"

definition colors_get :: "pyval \<Rightarrow> icon" where
  "colors_get ct =
     (case ct of
        None \<Rightarrow> White
      | Some s \<Rightarrow> (case map_of colors s of None \<Rightarrow> White | Some i \<Rightarrow> i))"

text \<open>
  The condition \<^verbatim>\<open>v and v not in ['NO_VIOLATIONS', 'REMOVED_NODE']\<close>, which both
  scripts write out at every place that counts or marks a violating node (lines 91, 111
  and 146 of the text report, line 163 of the map generator).
\<close>

definition is_violating :: "pyval \<Rightarrow> bool" where
  "is_violating v = (truthy v \<and> v \<notin> set [Some ''NO_VIOLATIONS'', Some ''REMOVED_NODE''])"

subsection \<open>The printed report\<close>

text \<open>
  One constructor per \<^verbatim>\<open>print\<close> call, carrying the values its f-string interpolates;
  the fixed text of a line is not repeated here. \<open>Blank\<close> is an empty line (a bare
  \<^verbatim>\<open>print()\<close> or a leading newline).
\<close>

datatype detail =
    ChangeDetail icon nat
  | ViolationDetail nat

datatype line =
    Rule
  | Title
  | SubnetLine string
  | TotalNodes nat
  | Blank
  | ChangeSummaryHeader
  | ChangeLine icon string nat
  | ViolationsLine nat
  | CountryHeader
  | CountryLine string nat "detail list option"
  | RegionalHeader
  | RegionLine string nat
  | DatacenterLine string
  | NodeLine icon string string bool
  | ViolationText string
  | ConstraintHeader
  | DcViolationsHeader
  | OwnerViolationsHeader
  | GroupLine string nat
  | MemberLine icon string
  | NoViolationsNotice
  | ProviderNote
  | Tip1
  | Tip2
  | InputNotFound
  | NoNodesFound

definition header_lines :: "node list \<Rightarrow> string \<Rightarrow> line list" where
  "header_lines nodes subnet_id =
     [Rule, Title, Rule] @ (if subnet_id \<noteq> [] then [SubnetLine subnet_id] else []) @
     [TotalNodes (length nodes), Blank]"

definition violation_count :: "node list \<Rightarrow> nat" where
  "violation_count nodes = length [n \<leftarrow> nodes. is_violating (constraint_violation n)]"

definition change_summary_lines :: "node list \<Rightarrow> line list" where
  "change_summary_lines nodes =
     (let change_counts = Counter (map change_type nodes) in
      [ChangeSummaryHeader] @
      map (\<lambda>(ct, count). ChangeLine (colors_get ct) (py_str ct) count) change_counts @
      (if 0 < violation_count nodes then [ViolationsLine (violation_count nodes)] else []) @
      [Blank])"

definition country_details :: "node_info list \<Rightarrow> detail list option" where
  "country_details country_nodes =
     (let change_breakdown = Counter (map info_change_type country_nodes);
          violation_nodes = [n \<leftarrow> country_nodes. is_violating (violations n)] in
      if 1 < length change_breakdown \<or> violation_nodes \<noteq> [] then
        Some (concat (map (\<lambda>(ct, count).
                             if 0 < count then [ChangeDetail (colors_get ct) count] else [])
                          change_breakdown) @
              (if violation_nodes \<noteq> [] then [ViolationDetail (length violation_nodes)]
               else []))
      else None)"

definition country_summary ::
  "(string, node_info) defaultdict \<Rightarrow> (string \<times> nat \<times> line) list" where
  "country_summary countries =
     map (\<lambda>(country, country_nodes).
            (country, length country_nodes,
             CountryLine country (length country_nodes) (country_details country_nodes)))
         (filter (\<lambda>(country, country_nodes). country \<noteq> []) countries)"

definition country_lines :: "(string, node_info) defaultdict \<Rightarrow> line list" where
  "country_lines countries =
     [CountryHeader] @
     map (\<lambda>(country, count, summary). summary)
         (sorted_reverse (\<lambda>(country, count, summary). count) (country_summary countries)) @
     [Blank]"

definition node_lines :: "node_info \<Rightarrow> line list" where
  "node_lines n =
     (let violation_marker = is_violating (violations n);
          city_info = (if city n \<noteq> [] then '' ('' @ city n @ '')'' else [])
      in [NodeLine (colors_get (info_change_type n)) (info_node_id n) city_info
            violation_marker] @
         (if violation_marker then [ViolationText (py_str (violations n))] else []))"

definition dc_groups :: "node_info list \<Rightarrow> (string, node_info) defaultdict" where
  "dc_groups region_nodes =
     fold (\<lambda>n d. dd_append d (py_str (info_dc_id n) @ '' ('' @ py_str (info_dc_owner n) @ '')'') n)
          region_nodes []"

fun datacenter_lines :: "string \<times> node_info list \<Rightarrow> line list" where
  "datacenter_lines (dc_info, dc_nodes) =
     DatacenterLine dc_info # concat (map node_lines dc_nodes)"

fun region_lines :: "string \<times> node_info list \<Rightarrow> line list" where
  "region_lines (region, region_nodes) =
     (if region = [] \<or> region = '','' then []
      else [Blank, RegionLine region (length region_nodes)] @
           concat (map datacenter_lines (sort_key fst (dc_groups region_nodes))))"

definition regional_lines :: "(string, node_info) defaultdict \<Rightarrow> line list" where
  "regional_lines regions =
     RegionalHeader # concat (map region_lines (sort_key fst regions))"

text \<open>
  The constraint analysis (lines 155 to 174): the nodes that are not \<^verbatim>\<open>REMOVED\<close>,
  grouped by \<^verbatim>\<open>dc_id\<close> and by \<^verbatim>\<open>dc_owner\<close>; a group of more than one node is a
  violation.
\<close>

type_synonym active_groupings = "(pyval, node) defaultdict \<times> (pyval, node) defaultdict"

fun active_groups :: "node list \<Rightarrow> active_groupings \<Rightarrow> active_groupings" where
  "active_groups [] acc = acc"
| "active_groups (n # ns) (datacenters, owners) =
     (if change_type n = Some ''REMOVED'' then active_groups ns (datacenters, owners)
      else active_groups ns
             (dd_append datacenters (dc_id n) n, dd_append owners (dc_owner n) n))"

definition dc_violations :: "node list \<Rightarrow> (pyval \<times> node list) list" where
  "dc_violations nodes =
     filter (\<lambda>(dc, ns). 1 < length ns) (fst (active_groups nodes ([], [])))"

definition owner_violations :: "node list \<Rightarrow> (pyval \<times> node list) list" where
  "owner_violations nodes =
     filter (\<lambda>(owner, ns). 1 < length ns) (snd (active_groups nodes ([], [])))"

fun group_lines :: "pyval \<times> node list \<Rightarrow> line list" where
  "group_lines (k, ns) =
     GroupLine (py_str k) (length ns) #
     map (\<lambda>n. MemberLine (colors_get (change_type n)) (py_str (node_id n))) ns"

definition constraint_lines :: "node list \<Rightarrow> line list" where
  "constraint_lines nodes =
     [Blank, Rule, ConstraintHeader, Rule] @
     (if dc_violations nodes \<noteq> [] then
        [DcViolationsHeader] @ concat (map group_lines (dc_violations nodes)) @ [Blank]
      else []) @
     (if owner_violations nodes \<noteq> [] then
        [OwnerViolationsHeader] @ concat (map group_lines (owner_violations nodes)) @ [Blank]
      else []) @
     (if dc_violations nodes = [] \<and> owner_violations nodes = [] then
        [NoViolationsNotice, ProviderNote, Blank]
      else [])"

definition footer_lines :: "line list" where
  "footer_lines = [Rule, Tip1, Tip2, Rule]"

text \<open>
  \<^verbatim>\<open>print_geographic_summary\<close>: the grouping runs before the first \<^verbatim>\<open>print\<close>, so an
  error raised there leaves no output; the result is the error or the whole report.
\<close>

definition print_geographic_summary :: "node list \<Rightarrow> string \<Rightarrow> py_error + line list" where
  "print_geographic_summary nodes subnet_id =
     (case analyze_geographic_distribution nodes of
        Inl e \<Rightarrow> Inl e
      | Inr (regions, countries, continents) \<Rightarrow>
          Inr (header_lines nodes subnet_id @ change_summary_lines nodes @
               country_lines countries @ regional_lines regions @
               constraint_lines nodes @ footer_lines))"

text \<open>
  \<^verbatim>\<open>main\<close> of the text report. The input file is the list of rows the reader yields, or
  \<open>None\<close> when the path does not exist. The result is an uncaught error, or the exit code
  with the lines printed.
\<close>

definition main_text :: "row list option \<Rightarrow> string \<Rightarrow> py_error + nat \<times> line list" where
  "main_text input subnet_id =
     (case input of
        None \<Rightarrow> Inr (1, [InputNotFound])
      | Some rows \<Rightarrow>
          (let nodes = read_subnet_data rows in
           if nodes = [] then Inr (1, [NoNodesFound])
           else (case print_geographic_summary nodes subnet_id of
                   Inl e \<Rightarrow> Inl e
                 | Inr ls \<Rightarrow> Inr (0, ls))))"


section \<open>The map generator: \<^verbatim>\<open>generate_subnet_map.py\<close>\<close>

subsection \<open>Record loader\<close>

text \<open>
  The coordinates are Python floats. Their type is left open as \<open>'f\<close>, and the builtin
  \<^verbatim>\<open>float\<close> is a parameter \<open>pyfloat\<close> of the loader: applied to a \<^verbatim>\<open>str\<close> it returns a
  float (\<open>Inr\<close>) or raises (\<open>Inl\<close>).
\<close>

record 'f map_node =
  m_node_id :: pyval
  m_node_operator_id :: pyval
  m_node_provider_id :: pyval
  m_dc_id :: pyval
  m_dc_owner :: pyval
  m_dc_region :: pyval
  m_country :: string
  m_city :: string
  m_change_type :: pyval
  m_constraint_violation :: pyval
  m_reward_region :: pyval
  m_reward_xdr :: pyval
  latitude :: "'f option"
  longitude :: "'f option"

text \<open>Lines 22 to 29: country and city of a \<^verbatim>\<open>dc_region\<close> cell; no segment is trimmed.\<close>

definition map_region :: "pyval \<Rightarrow> string \<times> string" where
  "map_region region =
     (case region of
        None \<Rightarrow> ([], [])
      | Some s \<Rightarrow>
          if s \<noteq> [] \<and> CHR '','' \<in> set s then
            (let region_parts = py_split s CHR '','' in
             (if 1 < length region_parts then region_parts ! 1 else [],
              if 2 < length region_parts then region_parts ! 2 else []))
          else ([], []))"

text \<open>\<^verbatim>\<open>row.get(key, '').strip()\<close>: \<^verbatim>\<open>None\<close> has no method \<^verbatim>\<open>strip\<close>.\<close>

definition get_stripped :: "row \<Rightarrow> string \<Rightarrow> py_error + string" where
  "get_stripped r key =
     (case row_get r key '''' of None \<Rightarrow> Inl AttributeError | Some s \<Rightarrow> Inr (strip s))"

text \<open>
  Lines 35 to 48, for one coordinate: unset for the empty string and for the text
  \<^verbatim>\<open>None\<close>; otherwise \<^verbatim>\<open>float\<close> is tried and its \<^verbatim>\<open>ValueError\<close> is swallowed. Any other
  error would leave the inner \<^verbatim>\<open>try\<close>.
\<close>

definition parse_coordinate ::
  "(string \<Rightarrow> py_error + 'f) \<Rightarrow> string \<Rightarrow> py_error + 'f option" where
  "parse_coordinate pyfloat str =
     (if str \<noteq> [] \<and> str \<noteq> ''None'' then
        (case pyfloat str of
           Inr x \<Rightarrow> Inr (Some x)
         | Inl ValueError \<Rightarrow> Inr None
         | Inl e \<Rightarrow> Inl e)
      else Inr None)"

definition process_row ::
  "(string \<Rightarrow> py_error + 'f) \<Rightarrow> row \<Rightarrow> py_error + 'f map_node" where
  "process_row pyfloat r =
     (let region = row_get r ''dc_region'' '''';
          country = fst (map_region region);
          cty = snd (map_region region)
      in
      (case get_stripped r ''gps_latitude'' of
         Inl e \<Rightarrow> Inl e
       | Inr lat_str \<Rightarrow>
      (case get_stripped r ''gps_longitude'' of
         Inl e \<Rightarrow> Inl e
       | Inr lon_str \<Rightarrow>
      (case parse_coordinate pyfloat lat_str of
         Inl e \<Rightarrow> Inl e
       | Inr lat \<Rightarrow>
      (case parse_coordinate pyfloat lon_str of
         Inl e \<Rightarrow> Inl e
       | Inr lon \<Rightarrow>
           Inr \<lparr> m_node_id = row_get r ''node_id'' '''',
                 m_node_operator_id = row_get r ''node_operator_id'' '''',
                 m_node_provider_id = row_get r ''node_provider_id'' '''',
                 m_dc_id = row_get r ''node_operator_dc'' '''',
                 m_dc_owner = row_get r ''dc_owner'' '''',
                 m_dc_region = region,
                 m_country = country,
                 m_city = cty,
                 m_change_type = row_get r ''change_type'' ''UNCHANGED'',
                 m_constraint_violation = row_get r ''constraint_violation'' '''',
                 m_reward_region = row_get r ''reward_region'' '''',
                 m_reward_xdr = row_get r ''reward_xdr'' ''0'',
                 latitude = lat,
                 longitude = lon \<rparr>)))))"

text \<open>
  The loader's loop: a row whose processing raises is reported (the warning names the
  row's \<^verbatim>\<open>node_id\<close>, or \<^verbatim>\<open>unknown\<close>, and the error) and skipped. The result is the
  warnings printed and the nodes kept, both in row order.
\<close>

fun read_map_data ::
  "(string \<Rightarrow> py_error + 'f) \<Rightarrow> row list \<Rightarrow> (string \<times> py_error) list \<times> 'f map_node list" where
  "read_map_data pyfloat [] = ([], [])"
| "read_map_data pyfloat (r # rs) =
     (case read_map_data pyfloat rs of (warnings, nodes) \<Rightarrow>
        (case process_row pyfloat r of
           Inl e \<Rightarrow> ((py_str (row_get r ''node_id'' ''unknown''), e) # warnings, nodes)
         | Inr n \<Rightarrow> (warnings, n # nodes)))"

subsection \<open>The HTML document (\<^verbatim>\<open>generate_html_map\<close>)\<close>

text \<open>
  The document is a fixed template with seven holes: the subnet identifier shown in the
  panel, the five numbers of the panel, and the node list that \<^verbatim>\<open>json.dumps\<close> writes
  into the script. The record holds what fills the holes.
\<close>

record 'f html_document =
  panel_subnet :: string
  panel_total :: nat
  panel_added :: nat
  panel_removed :: nat
  panel_unchanged :: nat
  panel_violations :: nat
  embedded_nodes :: "'f map_node list"

definition valid_nodes :: "'f map_node list \<Rightarrow> 'f map_node list" where
  "valid_nodes nodes = [n \<leftarrow> nodes. latitude n \<noteq> None \<and> longitude n \<noteq> None]"

definition generate_html_map :: "'f map_node list \<Rightarrow> string \<Rightarrow> 'f html_document" where
  "generate_html_map nodes subnet_id =
     \<lparr> panel_subnet = take 40 subnet_id @ ''...'',
       panel_total = length nodes,
       panel_added = length [n \<leftarrow> nodes. m_change_type n = Some ''ADDED''],
       panel_removed = length [n \<leftarrow> nodes. m_change_type n = Some ''REMOVED''],
       panel_unchanged = length [n \<leftarrow> nodes. m_change_type n = Some ''UNCHANGED''],
       panel_violations = length [n \<leftarrow> nodes. is_violating (m_constraint_violation n)],
       embedded_nodes = valid_nodes nodes \<rparr>"


section \<open>Definitions used to state the properties\<close>

text \<open>
  The region parse as the specification words it: split on comma, trim every segment,
  and fill continent, country and city by position.
\<close>

definition spec_region_parse :: "string \<Rightarrow> string \<times> string \<times> string" where
  "spec_region_parse s =
     (let segments = map strip (py_split s CHR '','') in
      if 3 \<le> length segments then (segments ! 0, segments ! 1, segments ! 2)
      else if length segments = 2 then (segments ! 0, segments ! 1, [])
      else (segments ! 0, [], []))"

text \<open>
  The groups of a list by a key: one entry per key in the order of first occurrence,
  holding the values of the members in input order.
\<close>

definition grouped :: "('a \<Rightarrow> 'k) \<Rightarrow> ('a \<Rightarrow> 'v) \<Rightarrow> 'a list \<Rightarrow> ('k, 'v) defaultdict" where
  "grouped key val xs =
     map (\<lambda>k. (k, map val [x \<leftarrow> xs. key x = k])) (first_occ (map key xs))"

definition is_active :: "node \<Rightarrow> bool" where
  "is_active n = (change_type n \<noteq> Some ''REMOVED'')"

text \<open>
  A node is in violation, in the specification's words: its \<^verbatim>\<open>constraint_violation\<close> is
  a non-empty string other than the two sentinels.
\<close>

definition in_violation :: "pyval \<Rightarrow> bool" where
  "in_violation v =
     (case v of
        None \<Rightarrow> False
      | Some s \<Rightarrow> s \<noteq> [] \<and> s \<noteq> ''NO_VIOLATIONS'' \<and> s \<noteq> ''REMOVED_NODE'')"

text \<open>
  What the grouping loop of the text report derives from one node: its continent,
  country and city, its region key, and its display record (when the \<^verbatim>\<open>node_id\<close> is a
  string).
\<close>

definition continent_of :: "node \<Rightarrow> pyval" where
  "continent_of n = fst (text_region (dc_region n))"

definition country_of :: "node \<Rightarrow> string" where
  "country_of n = fst (snd (text_region (dc_region n)))"

definition city_of :: "node \<Rightarrow> string" where
  "city_of n = snd (snd (text_region (dc_region n)))"

definition region_key :: "node \<Rightarrow> string" where
  "region_key n = py_str (continent_of n) @ '','' @ country_of n"

definition node_info_of :: "node \<Rightarrow> node_info" where
  "node_info_of n =
     \<lparr> info_node_id = take 20 (py_str (node_id n)) @ ''...'', info_dc_id = dc_id n,
       info_dc_owner = dc_owner n, info_change_type = change_type n,
       violations = constraint_violation n, city = city_of n \<rparr>"

text \<open>
  The country distribution as printed: country and node count of the country lines of a
  report, in the order of the lines.
\<close>

definition printed_countries :: "line list \<Rightarrow> (string \<times> nat) list" where
  "printed_countries ls =
     concat (map (\<lambda>l. case l of CountryLine c n d \<Rightarrow> [(c, n)] | _ \<Rightarrow> []) ls)"

text \<open>
  Coordinate coercion in the specification's words: the string is trimmed; the empty
  string and the text \<^verbatim>\<open>None\<close> are unset; otherwise the numeric parse is tried, and a
  failed parse is unset.
\<close>

definition spec_coordinate :: "(string \<Rightarrow> py_error + 'f) \<Rightarrow> string \<Rightarrow> 'f option" where
  "spec_coordinate pyfloat s =
     (let t = strip s in
      if t = [] \<or> t = ''None'' then None
      else (case pyfloat t of Inr x \<Rightarrow> Some x | Inl e \<Rightarrow> None))"

text \<open>Sample records for the worked examples.\<close>

definition sample_node :: "string \<Rightarrow> string \<Rightarrow> string \<Rightarrow> string \<Rightarrow> string \<Rightarrow> node" where
  "sample_node nid dc owner region ct =
     \<lparr> node_id = Some nid, dc_id = Some dc, dc_owner = Some owner, dc_region = Some region,
       change_type = Some ct, constraint_violation = Some ''NO_VIOLATIONS'',
       reward_region = Some [] \<rparr>"


section \<open>Splitting and trimming\<close>

lemma split_acc_length: "length (split_acc sep acc s) = Suc (length (filter (\<lambda>c. c = sep) s))"
  by (induction s arbitrary: acc) auto

lemma py_split_length: "length (py_split s sep) = Suc (length (filter (\<lambda>c. c = sep) s))"
  by (simp add: py_split_def split_acc_length)

lemma split_acc_join: "py_join sep (split_acc sep acc s) = rev acc @ s"
proof (induction s arbitrary: acc)
  case Nil
  then show ?case by simp
next
  case (Cons c cs)
  show ?case
  proof (cases "c = sep")
    case True
    obtain p ps where ps: "split_acc sep [] cs = p # ps"
      by (cases "split_acc sep [] cs") (use split_acc_length [of sep "[]" cs] in auto)
    have "py_join sep (p # ps) = cs" using Cons.IH [of "[]"] ps by simp
    then show ?thesis using True ps by simp
  next
    case False
    then show ?thesis using Cons.IH [of "c # acc"] by simp
  qed
qed

text \<open>Joining the segments with the separator gives the string back.\<close>

lemma py_split_join: "py_join sep (py_split s sep) = s"
  by (simp add: py_split_def split_acc_join)

lemma split_acc_no_sep:
  "sep \<notin> set acc \<Longrightarrow> p \<in> set (split_acc sep acc s) \<Longrightarrow> sep \<notin> set p"
proof (induction s arbitrary: acc)
  case Nil
  then show ?case by auto
next
  case (Cons c cs)
  show ?case
  proof (cases "c = sep")
    case True
    with Cons.prems have "p = rev acc \<or> p \<in> set (split_acc sep [] cs)" by simp
    then show ?thesis using Cons.prems(1) Cons.IH [of "[]"] by auto
  next
    case False
    with Cons.prems have "p \<in> set (split_acc sep (c # acc) cs)" by simp
    then show ?thesis using False Cons.prems(1) Cons.IH [of "c # acc"] by auto
  qed
qed

lemma py_split_no_sep: "p \<in> set (py_split s sep) \<Longrightarrow> sep \<notin> set p"
  using split_acc_no_sep [of sep "[]" p s] by (simp add: py_split_def)

lemma split_acc_without_sep: "sep \<notin> set s \<Longrightarrow> split_acc sep acc s = [rev acc @ s]"
  by (induction s arbitrary: acc) auto

lemma py_split_without_sep: "sep \<notin> set s \<Longrightarrow> py_split s sep = [s]"
  by (simp add: py_split_def split_acc_without_sep)

lemma py_split_with_sep: "sep \<in> set s \<Longrightarrow> 2 \<le> length (py_split s sep)"
proof -
  assume "sep \<in> set s"
  then have "0 < length (filter (\<lambda>c. c = sep) s)"
    by (induction s) auto
  then show ?thesis by (simp add: py_split_length Suc_le_eq)
qed

lemma strip_Nil: "strip [] = []"
  by (simp add: strip_def)


section \<open>Grouping into a \<^verbatim>\<open>defaultdict\<close>\<close>

lemma first_occ_Nil: "first_occ [] = []"
  by (simp add: first_occ_def)

lemma first_occ_snoc:
  "first_occ (xs @ [x]) = (if x \<in> set xs then first_occ xs else first_occ xs @ [x])"
  by (simp add: first_occ_def)

lemma set_first_occ: "set (first_occ xs) = set xs"
  by (simp add: first_occ_def)

lemma distinct_first_occ: "distinct (first_occ xs)"
  by (simp add: first_occ_def)

lemma dd_append_tabulate:
  "distinct ks \<Longrightarrow>
   dd_append (map (\<lambda>k. (k, g k)) ks) k v =
     (if k \<in> set ks then map (\<lambda>k'. (k', if k' = k then g k' @ [v] else g k')) ks
      else map (\<lambda>k. (k, g k)) ks @ [(k, [v])])"
  by (induction ks) auto

lemma grouped_Nil: "grouped key val [] = []"
  by (simp add: grouped_def first_occ_Nil)

lemma grouped_snoc:
  "grouped key val (xs @ [x]) = dd_append (grouped key val xs) (key x) (val x)"
proof (cases "key x \<in> set (map key xs)")
  case True
  have "dd_append (grouped key val xs) (key x) (val x) =
        map (\<lambda>k'. (k', if k' = key x then map val [y \<leftarrow> xs. key y = k'] @ [val x]
                        else map val [y \<leftarrow> xs. key y = k'])) (first_occ (map key xs))"
    unfolding grouped_def using True
    by (subst dd_append_tabulate) (simp_all add: distinct_first_occ set_first_occ)
  also have "\<dots> = grouped key val (xs @ [x])"
    using True by (auto simp: grouped_def first_occ_snoc)
  finally show ?thesis by simp
next
  case False
  have "dd_append (grouped key val xs) (key x) (val x) =
        map (\<lambda>k. (k, map val [y \<leftarrow> xs. key y = k])) (first_occ (map key xs)) @ [(key x, [val x])]"
    unfolding grouped_def using False
    by (subst dd_append_tabulate) (simp_all add: distinct_first_occ set_first_occ)
  also have "\<dots> = grouped key val (xs @ [x])"
  proof -
    have nk: "key y \<noteq> key x" if "y \<in> set xs" for y
      using False that by (metis image_eqI list.set_map)
    then have "[y \<leftarrow> xs. key y = key x] = []"
      by (simp add: filter_empty_conv)
    moreover have "\<forall>k \<in> set (first_occ (map key xs)). k \<noteq> key x"
      using nk by (auto simp: set_first_occ)
    ultimately show ?thesis using False
      by (auto simp: grouped_def first_occ_snoc)
  qed
  finally show ?thesis by simp
qed

text \<open>The loop \<^verbatim>\<open>for x in xs: d[key(x)].append(val(x))\<close> computes the groups.\<close>

lemma fold_dd_append:
  "fold (\<lambda>x d. dd_append d (key x) (val x)) xs [] = grouped key val xs"
  by (induction xs rule: rev_induct) (simp_all add: grouped_Nil grouped_snoc)

lemma grouped_member:
  "(k, vs) \<in> set (grouped key val xs) \<longleftrightarrow>
     k \<in> set (map key xs) \<and> vs = map val [x \<leftarrow> xs. key x = k]"
  by (auto simp: grouped_def set_first_occ)

lemma grouped_keys: "map fst (grouped key val xs) = first_occ (map key xs)"
  by (simp add: grouped_def comp_def)


section \<open>The constraint analysis\<close>

lemma active_groups_fold:
  "active_groups ns (dcs, ows) =
     (fold (\<lambda>n d. dd_append d (dc_id n) n) (filter is_active ns) dcs,
      fold (\<lambda>n d. dd_append d (dc_owner n) n) (filter is_active ns) ows)"
  by (induction ns arbitrary: dcs ows) (simp_all add: is_active_def)

lemma active_groups_grouped:
  "active_groups nodes ([], []) =
     (grouped dc_id (\<lambda>n. n) (filter is_active nodes),
      grouped dc_owner (\<lambda>n. n) (filter is_active nodes))"
  by (simp add: active_groups_fold fold_dd_append)

lemma dc_violations_member:
  "(dc, ns) \<in> set (dc_violations nodes) \<longleftrightarrow>
     ns = [n \<leftarrow> nodes. is_active n \<and> dc_id n = dc] \<and> 1 < length ns"
proof -
  have "dc \<in> dc_id ` {n \<in> set nodes. is_active n}"
    if "1 < length [n \<leftarrow> nodes. is_active n \<and> dc_id n = dc]"
  proof -
    from that obtain n where "n \<in> set [n \<leftarrow> nodes. is_active n \<and> dc_id n = dc]"
      by (cases "[n \<leftarrow> nodes. is_active n \<and> dc_id n = dc]") auto
    then show ?thesis by auto
  qed
  then show ?thesis
    by (auto simp: dc_violations_def active_groups_grouped grouped_member)
qed

lemma owner_violations_member:
  "(ow, ns) \<in> set (owner_violations nodes) \<longleftrightarrow>
     ns = [n \<leftarrow> nodes. is_active n \<and> dc_owner n = ow] \<and> 1 < length ns"
proof -
  have "ow \<in> dc_owner ` {n \<in> set nodes. is_active n}"
    if "1 < length [n \<leftarrow> nodes. is_active n \<and> dc_owner n = ow]"
  proof -
    from that obtain n where "n \<in> set [n \<leftarrow> nodes. is_active n \<and> dc_owner n = ow]"
      by (cases "[n \<leftarrow> nodes. is_active n \<and> dc_owner n = ow]") auto
    then show ?thesis by auto
  qed
  then show ?thesis
    by (auto simp: owner_violations_def active_groups_grouped grouped_member)
qed

lemma dc_violations_distinct: "distinct (map fst (dc_violations nodes))"
proof -
  have "distinct (map fst (grouped dc_id (\<lambda>n. n) (filter is_active nodes)))"
    by (simp add: grouped_keys distinct_first_occ)
  then show ?thesis
    unfolding dc_violations_def active_groups_grouped fst_conv
    by (rule distinct_map_filter)
qed

lemma owner_violations_distinct: "distinct (map fst (owner_violations nodes))"
proof -
  have "distinct (map fst (grouped dc_owner (\<lambda>n. n) (filter is_active nodes)))"
    by (simp add: grouped_keys distinct_first_occ)
  then show ?thesis
    unfolding owner_violations_def active_groups_grouped snd_conv
    by (rule distinct_map_filter)
qed

text \<open>The lines \<^verbatim>\<open>{key}: {count} nodes\<close> of the section are those of the flagged groups.\<close>

lemma group_lines_single:
  "GroupLine k c \<in> set (group_lines (key, ns)) \<longleftrightarrow> k = py_str key \<and> c = length ns"
  by auto

lemma group_lines_GroupLine:
  "GroupLine k c \<in> set (concat (map group_lines vs)) \<longleftrightarrow>
     (\<exists>key ns. (key, ns) \<in> set vs \<and> k = py_str key \<and> c = length ns)"
proof (induction vs)
  case Nil
  then show ?case by simp
next
  case (Cons v vs)
  obtain key ns where v: "v = (key, ns)" by (cases v)
  have "GroupLine k c \<in> set (concat (map group_lines (v # vs))) \<longleftrightarrow>
        GroupLine k c \<in> set (group_lines (key, ns)) \<or> GroupLine k c \<in> set (concat (map group_lines vs))"
    using v by simp
  then show ?case
    unfolding group_lines_single Cons.IH using v by auto
qed

lemma constraint_lines_GroupLine:
  "GroupLine k c \<in> set (constraint_lines nodes) \<longleftrightarrow>
     (\<exists>key ns. ((key, ns) \<in> set (dc_violations nodes) \<or> (key, ns) \<in> set (owner_violations nodes)) \<and>
               k = py_str key \<and> c = length ns)"
proof -
  have "GroupLine k c \<in> set (constraint_lines nodes) \<longleftrightarrow>
        GroupLine k c \<in> set (concat (map group_lines (dc_violations nodes))) \<or>
        GroupLine k c \<in> set (concat (map group_lines (owner_violations nodes)))"
  proof -
    have "xs = [] \<Longrightarrow> GroupLine k c \<notin> set (concat (map group_lines xs))" for xs
      by simp
    then show ?thesis
      unfolding constraint_lines_def by (auto simp del: set_concat)
  qed
  then show ?thesis
    unfolding group_lines_GroupLine by blast
qed

section \<open>Counting, grouping and sorting in the text report\<close>





text \<open>
  The grouping loop raises \<^verbatim>\<open>TypeError\<close> exactly when some \<^verbatim>\<open>node_id\<close> is \<^verbatim>\<open>None\<close>;
  otherwise it returns the three groupings.
\<close>

lemma make_info_of:
  "make_info n (city_of n) = (if node_id n = None then Inl TypeError else Inr (node_info_of n))"
  by (cases "node_id n") (simp_all add: make_info_def short_id_def node_info_of_def py_str_def)

lemma analyze_loop_step:
  "analyze_loop (n # ns) (regions, countries, continents) =
     (if node_id n = None then Inl TypeError
      else analyze_loop ns
             (dd_append regions (region_key n) (node_info_of n),
              dd_append countries (country_of n) (node_info_of n),
              dd_append continents (continent_of n) (node_info_of n)))"
proof -
  obtain a b c where t: "text_region (dc_region n) = (a, b, c)"
    by (cases "text_region (dc_region n)")
  then have c: "c = city_of n" and b: "b = country_of n" and a: "a = continent_of n"
    by (simp_all add: city_of_def country_of_def continent_of_def)
  show ?thesis
    using t make_info_of [of n] unfolding c b a
    by (simp add: region_key_def)
qed

lemma analyze_loop_ok:
  "\<forall>n \<in> set ns. node_id n \<noteq> None \<Longrightarrow>
   analyze_loop ns (regions, countries, continents) =
     Inr (fold (\<lambda>n d. dd_append d (region_key n) (node_info_of n)) ns regions,
          fold (\<lambda>n d. dd_append d (country_of n) (node_info_of n)) ns countries,
          fold (\<lambda>n d. dd_append d (continent_of n) (node_info_of n)) ns continents)"
proof (induction ns arbitrary: regions countries continents)
  case Nil
  then show ?case by simp
next
  case (Cons n ns)
  then show ?case by (simp add: analyze_loop_step del: analyze_loop.simps)
qed

lemma analyze_loop_raises:
  "\<exists>n \<in> set ns. node_id n = None \<Longrightarrow> analyze_loop ns (regions, countries, continents) = Inl TypeError"
proof (induction ns arbitrary: regions countries continents)
  case Nil
  then show ?case by simp
next
  case (Cons n ns)
  then show ?case by (auto simp: analyze_loop_step simp del: analyze_loop.simps)
qed

lemma analyze_eq:
  "analyze_geographic_distribution nodes =
     (if \<exists>n \<in> set nodes. node_id n = None then Inl TypeError
      else Inr (grouped region_key node_info_of nodes,
                grouped country_of node_info_of nodes,
                grouped continent_of node_info_of nodes))"
proof (cases "\<exists>n \<in> set nodes. node_id n = None")
  case True
  then show ?thesis
    unfolding analyze_geographic_distribution_def by (simp add: analyze_loop_raises)
next
  case False
  then have "\<forall>n \<in> set nodes. node_id n \<noteq> None" by simp
  then show ?thesis
    unfolding analyze_geographic_distribution_def
    by (simp add: analyze_loop_ok fold_dd_append False)
qed

text \<open>\<open>sorted_reverse\<close> sorts in descending order and keeps the input order of ties.\<close>

lemma sorted_reverse_Cons:
  "sorted_reverse key (x # xs) = insort_desc key x (sorted_reverse key xs)"
  by (simp add: sorted_reverse_def)

lemma sorted_reverse_Nil: "sorted_reverse key [] = []"
  by (simp add: sorted_reverse_def)

lemma set_insort_desc: "set (insort_desc key x ys) = insert x (set ys)"
  by (induction ys) auto

lemma set_sorted_reverse: "set (sorted_reverse key xs) = set xs"
  by (induction xs) (simp_all add: sorted_reverse_Nil sorted_reverse_Cons set_insort_desc)

lemma length_insort_desc: "length (insort_desc key x ys) = Suc (length ys)"
  by (induction ys) auto

lemma length_sorted_reverse: "length (sorted_reverse key xs) = length xs"
  by (induction xs) (simp_all add: sorted_reverse_Nil sorted_reverse_Cons length_insort_desc)

lemma insort_desc_sorted:
  "sorted_wrt (\<lambda>a b. key b \<le> key a) ys \<Longrightarrow> sorted_wrt (\<lambda>a b. key b \<le> key a) (insort_desc key x ys)"
  by (induction ys) (auto simp: set_insort_desc)

lemma sorted_reverse_sorted: "sorted_wrt (\<lambda>a b. key b \<le> key a) (sorted_reverse key xs)"
  by (induction xs) (simp_all add: sorted_reverse_Nil sorted_reverse_Cons insort_desc_sorted)

lemma filter_insort_desc:
  "filter (\<lambda>y. key y = k) (insort_desc key x ys) =
     (if key x = k then x # filter (\<lambda>y. key y = k) ys else filter (\<lambda>y. key y = k) ys)"
  by (induction ys) auto

lemma sorted_reverse_stable:
  "filter (\<lambda>y. key y = k) (sorted_reverse key xs) = filter (\<lambda>y. key y = k) xs"
  by (induction xs) (simp_all add: sorted_reverse_Nil sorted_reverse_Cons filter_insort_desc)

section \<open>The per-node violation test\<close>

lemma is_violating_iff: "is_violating v \<longleftrightarrow> in_violation v"
  by (cases v) (auto simp: is_violating_def in_violation_def truthy_def)

lemma ViolationsLine_member:
  "ViolationsLine k \<in> set (change_summary_lines nodes) \<longleftrightarrow>
     k = violation_count nodes \<and> 0 < k"
  by (auto simp: change_summary_lines_def Let_def)

lemma country_details_violations:
  "(\<exists>ds. country_details infos = Some ds \<and> ViolationDetail k \<in> set ds) \<longleftrightarrow>
     k = length [i \<leftarrow> infos. is_violating (violations i)] \<and> 0 < k"
  by (auto simp: country_details_def Let_def split: if_splits)

lemma node_lines_marker:
  "(\<exists>ic nid ci. NodeLine ic nid ci marked \<in> set (node_lines info)) \<longleftrightarrow>
     marked = is_violating (violations info)"
  by (auto simp: node_lines_def Let_def)

lemma node_lines_text:
  "ViolationText t \<in> set (node_lines info) \<longleftrightarrow>
     is_violating (violations info) \<and> t = py_str (violations info)"
  by (auto simp: node_lines_def Let_def)


section \<open>Region parsing\<close>

text \<open>
  C3, amended. For every region string the text report's parse returns a result and
  never raises. A string that contains a comma is split on commas, every segment is
  trimmed, and continent, country and city are the first three segments (a missing
  city is empty, further segments are ignored), as the specification's parse does. A
  string without a comma is returned unchanged as the continent, with empty country and
  city: it is not trimmed. The five examples of the specification hold.
\<close>

theorem text_region_parse:
  "text_region (Some s) =
     (if CHR '','' \<in> set s
      then (case spec_region_parse s of
              (continent, country, cty) \<Rightarrow> (Some continent, country, cty))
      else (Some s, [], [])) \<and>
   text_region (Some '''') = (Some '''', '''', '''') \<and>
   text_region (Some ''NA'') = (Some ''NA'', '''', '''') \<and>
   text_region (Some ''NA,US'') = (Some ''NA'', ''US'', '''') \<and>
   text_region (Some ''NA,US,NYC'') = (Some ''NA'', ''US'', ''NYC'') \<and>
   text_region (Some ''NA,US,NYC,extra'') = (Some ''NA'', ''US'', ''NYC'')"
proof -
  have "text_region (Some s) =
     (if CHR '','' \<in> set s
      then (case spec_region_parse s of
              (continent, country, cty) \<Rightarrow> (Some continent, country, cty))
      else (Some s, [], []))"
    by (auto simp: text_region_def spec_region_parse_def Let_def)
  moreover have "text_region (Some '''') = (Some '''', '''', '''')"
    by (simp add: text_region_def)
  moreover have "text_region (Some ''NA'') = (Some ''NA'', '''', '''')"
    by (simp add: text_region_def)
  moreover have "text_region (Some ''NA,US'') = (Some ''NA'', ''US'', '''')"
    by (simp add: text_region_def py_split_def strip_def isspace_def)
  moreover have "text_region (Some ''NA,US,NYC'') = (Some ''NA'', ''US'', ''NYC'')"
    by (simp add: text_region_def py_split_def strip_def isspace_def)
  moreover have "text_region (Some ''NA,US,NYC,extra'') = (Some ''NA'', ''US'', ''NYC'')"
    by (simp add: text_region_def py_split_def strip_def isspace_def)
  ultimately show ?thesis by blast
qed

text \<open>
  C3 as stated fails: the region \<^verbatim>\<open>" NA "\<close> has one segment, which the specification's
  parse trims and the code returns with its blanks.
\<close>

theorem text_region_untrimmed:
  "text_region (Some '' NA '') = (Some '' NA '', [], []) \<and>
   spec_region_parse '' NA '' = (''NA'', [], [])"
  by (simp add: text_region_def spec_region_parse_def py_split_def strip_def isspace_def)

text \<open>
  C4, amended. For every region string, the country and city of the map generator's
  parse, once trimmed, are the country and city of the text report's parse.
\<close>

theorem map_region_agrees_after_trim:
  "(case map_region (Some s) of (country, cty) \<Rightarrow> (strip country, strip cty)) =
     snd (text_region (Some s))"
proof (cases "CHR '','' \<in> set s")
  case True
  then have "2 \<le> length (py_split s CHR '','')" by (rule py_split_with_sep)
  with True show ?thesis
    by (auto simp: map_region_def text_region_def Let_def strip_Nil)
next
  case False
  then show ?thesis by (simp add: map_region_def text_region_def strip_Nil)
qed

text \<open>
  C4 as stated fails: on \<^verbatim>\<open>"NA, US"\<close> the map generator keeps the blank before
  \<^verbatim>\<open>US\<close>, the text report does not.
\<close>

theorem map_region_untrimmed:
  "map_region (Some ''NA, US'') = ('' US'', []) \<and>
   snd (text_region (Some ''NA, US'')) = (''US'', [])"
  by (simp add: map_region_def text_region_def py_split_def strip_def isspace_def)

section \<open>The map generator\<close>

text \<open>
  C5. The node list embedded in the document is the input list filtered to the nodes
  whose latitude and longitude are both set, in input order; no node with an unset
  coordinate is embedded. The panel's numbers are computed over the whole input list:
  the total is its length, and the change and violation counts range over all of it.
\<close>

theorem map_embeds_located_nodes:
  "embedded_nodes (generate_html_map nodes sid) =
     [n \<leftarrow> nodes. latitude n \<noteq> None \<and> longitude n \<noteq> None] \<and>
   set (embedded_nodes (generate_html_map nodes sid)) =
     {n \<in> set nodes. \<exists>x y. latitude n = Some x \<and> longitude n = Some y} \<and>
   panel_total (generate_html_map nodes sid) = length nodes \<and>
   panel_added (generate_html_map nodes sid) = length [n \<leftarrow> nodes. m_change_type n = Some ''ADDED''] \<and>
   panel_removed (generate_html_map nodes sid) = length [n \<leftarrow> nodes. m_change_type n = Some ''REMOVED''] \<and>
   panel_unchanged (generate_html_map nodes sid) =
     length [n \<leftarrow> nodes. m_change_type n = Some ''UNCHANGED''] \<and>
   panel_violations (generate_html_map nodes sid) =
     length [n \<leftarrow> nodes. in_violation (m_constraint_violation n)] \<and>
   length (embedded_nodes (generate_html_map nodes sid)) \<le> panel_total (generate_html_map nodes sid)"
  by (auto simp: generate_html_map_def valid_nodes_def is_violating_iff)

text \<open>The loader's coordinates are the specification's coercion of the two cells.\<close>

lemma parse_coordinate_spec:
  assumes "\<forall>t e. pyfloat t = Inl e \<longrightarrow> e = ValueError"
  shows "parse_coordinate pyfloat (strip s) = Inr (spec_coordinate pyfloat s)"
proof (cases "pyfloat (strip s)")
  case (Inl e)
  then have "e = ValueError" using assms by blast
  with Inl show ?thesis by (simp add: parse_coordinate_def spec_coordinate_def)
next
  case (Inr x)
  then show ?thesis by (simp add: parse_coordinate_def spec_coordinate_def)
qed

lemma process_row_coordinates:
  assumes "\<forall>t e. pyfloat t = Inl e \<longrightarrow> e = ValueError"
      and "row_get r ''gps_latitude'' '''' = Some lat"
      and "row_get r ''gps_longitude'' '''' = Some lon"
  shows "\<exists>n. process_row pyfloat r = Inr n \<and> latitude n = spec_coordinate pyfloat lat \<and>
             longitude n = spec_coordinate pyfloat lon"
  using assms(2,3)
  by (simp add: process_row_def get_stripped_def Let_def parse_coordinate_spec [OF assms(1)])

lemma read_map_data_coordinates:
  assumes "\<forall>t e. pyfloat t = Inl e \<longrightarrow> e = ValueError"
      and "\<forall>r \<in> set rows. row_get r ''gps_latitude'' '''' \<noteq> None \<and>
                           row_get r ''gps_longitude'' '''' \<noteq> None"
  shows "fst (read_map_data pyfloat rows) = [] \<and>
         map latitude (snd (read_map_data pyfloat rows)) =
           map (\<lambda>r. spec_coordinate pyfloat (py_str (row_get r ''gps_latitude'' ''''))) rows \<and>
         map longitude (snd (read_map_data pyfloat rows)) =
           map (\<lambda>r. spec_coordinate pyfloat (py_str (row_get r ''gps_longitude'' ''''))) rows"
  using assms(2)
proof (induction rows)
  case Nil
  then show ?case by simp
next
  case (Cons r rows)
  from Cons.prems obtain lat lon where
    c: "row_get r ''gps_latitude'' '''' = Some lat" "row_get r ''gps_longitude'' '''' = Some lon"
    by auto
  from process_row_coordinates [OF assms(1) c] obtain n where
    n: "process_row pyfloat r = Inr n" "latitude n = spec_coordinate pyfloat lat"
       "longitude n = spec_coordinate pyfloat lon"
    by blast
  from Cons have ih: "fst (read_map_data pyfloat rows) = [] \<and>
         map latitude (snd (read_map_data pyfloat rows)) =
           map (\<lambda>r. spec_coordinate pyfloat (py_str (row_get r ''gps_latitude'' ''''))) rows \<and>
         map longitude (snd (read_map_data pyfloat rows)) =
           map (\<lambda>r. spec_coordinate pyfloat (py_str (row_get r ''gps_longitude'' ''''))) rows"
    by simp
  obtain ws ns where rd: "read_map_data pyfloat rows = (ws, ns)"
    by (cases "read_map_data pyfloat rows")
  show ?case using ih n c by (simp add: rd py_str_def)
qed

text \<open>
  C6. Provided \<^verbatim>\<open>float\<close> raises nothing but \<^verbatim>\<open>ValueError\<close> on a string (which is what
  Python's \<^verbatim>\<open>float\<close> does): a row whose two coordinate cells are strings, or absent, is
  loaded without an error, and the latitude and longitude of its record are the
  coercions of the cells: the string is trimmed, the empty string and the text
  \<^verbatim>\<open>None\<close> give unset, a string that \<^verbatim>\<open>float\<close> rejects gives unset, and a string it
  accepts gives the float. Over a whole file of such rows the loader prints no
  warning and skips no row.
\<close>

theorem coordinate_coercion:
  assumes "\<forall>t e. pyfloat t = Inl e \<longrightarrow> e = ValueError"
  shows "(row_get r ''gps_latitude'' '''' = Some lat \<and> row_get r ''gps_longitude'' '''' = Some lon \<longrightarrow>
            (\<exists>n. process_row pyfloat r = Inr n \<and> latitude n = spec_coordinate pyfloat lat \<and>
                  longitude n = spec_coordinate pyfloat lon)) \<and>
         ((\<forall>r \<in> set rows. row_get r ''gps_latitude'' '''' \<noteq> None \<and>
                            row_get r ''gps_longitude'' '''' \<noteq> None) \<longrightarrow>
            fst (read_map_data pyfloat rows) = [] \<and>
            map latitude (snd (read_map_data pyfloat rows)) =
              map (\<lambda>r. spec_coordinate pyfloat (py_str (row_get r ''gps_latitude'' ''''))) rows \<and>
            map longitude (snd (read_map_data pyfloat rows)) =
              map (\<lambda>r. spec_coordinate pyfloat (py_str (row_get r ''gps_longitude'' ''''))) rows) \<and>
         spec_coordinate pyfloat '''' = None \<and>
         spec_coordinate pyfloat ''None'' = None \<and>
         (pyfloat ''abc'' = Inl ValueError \<longrightarrow> spec_coordinate pyfloat ''abc'' = None) \<and>
         (pyfloat ''37.5'' = Inr x \<longrightarrow> spec_coordinate pyfloat ''37.5'' = Some x)"
proof -
  have s1: "strip '''' = ''''" "strip ''None'' = ''None''" "strip ''abc'' = ''abc''"
    "strip ''37.5'' = ''37.5''"
    by (simp_all add: strip_def isspace_def)
  have 1: "\<exists>n. process_row pyfloat r = Inr n \<and> latitude n = spec_coordinate pyfloat lat \<and>
                  longitude n = spec_coordinate pyfloat lon"
    if "row_get r ''gps_latitude'' '''' = Some lat" "row_get r ''gps_longitude'' '''' = Some lon"
    by (rule process_row_coordinates [OF assms that])
  note 2 = read_map_data_coordinates [OF assms, of rows]
  have 3: "spec_coordinate pyfloat '''' = None" "spec_coordinate pyfloat ''None'' = None"
    by (simp_all add: spec_coordinate_def s1)
  have 4: "spec_coordinate pyfloat ''abc'' = None" if "pyfloat ''abc'' = Inl ValueError"
    using that by (simp add: spec_coordinate_def s1)
  have 5: "spec_coordinate pyfloat ''37.5'' = Some x" if "pyfloat ''37.5'' = Inr x"
    using that by (simp add: spec_coordinate_def s1)
  show ?thesis
    by (intro conjI impI) (use 1 2 3 4 5 in \<open>simp_all only:\<close>)
qed

text \<open>
  With a \<^verbatim>\<open>float\<close> that reads \<^verbatim>\<open>37.5\<close> and rejects everything else, two rows are
  loaded without a warning: \<^verbatim>\<open>" 37.5 "\<close> gives the latitude 37.5, and \<^verbatim>\<open>abc\<close>,
  \<^verbatim>\<open>None\<close> and an absent column give unset.
\<close>

theorem coordinate_coercion_examples:
  "read_map_data (\<lambda>t. if t = ''37.5'' then Inr (37.5 :: real) else Inl ValueError)
     [[''node_id'' \<mapsto> Some ''n1'', ''gps_latitude'' \<mapsto> Some '' 37.5 '',
       ''gps_longitude'' \<mapsto> Some ''abc''],
      [''node_id'' \<mapsto> Some ''n2'', ''gps_latitude'' \<mapsto> Some ''None'']] =
     ([], snd (read_map_data (\<lambda>t. if t = ''37.5'' then Inr (37.5 :: real) else Inl ValueError)
     [[''node_id'' \<mapsto> Some ''n1'', ''gps_latitude'' \<mapsto> Some '' 37.5 '',
       ''gps_longitude'' \<mapsto> Some ''abc''],
      [''node_id'' \<mapsto> Some ''n2'', ''gps_latitude'' \<mapsto> Some ''None'']])) \<and>
   map latitude (snd (read_map_data (\<lambda>t. if t = ''37.5'' then Inr (37.5 :: real) else Inl ValueError)
     [[''node_id'' \<mapsto> Some ''n1'', ''gps_latitude'' \<mapsto> Some '' 37.5 '',
       ''gps_longitude'' \<mapsto> Some ''abc''],
      [''node_id'' \<mapsto> Some ''n2'', ''gps_latitude'' \<mapsto> Some ''None'']])) = [Some 37.5, None] \<and>
   map longitude (snd (read_map_data (\<lambda>t. if t = ''37.5'' then Inr (37.5 :: real) else Inl ValueError)
     [[''node_id'' \<mapsto> Some ''n1'', ''gps_latitude'' \<mapsto> Some '' 37.5 '',
       ''gps_longitude'' \<mapsto> Some ''abc''],
      [''node_id'' \<mapsto> Some ''n2'', ''gps_latitude'' \<mapsto> Some ''None'']])) = [None, None]"
proof -
  let ?pf = "\<lambda>t. if t = ''37.5'' then Inr (37.5 :: real) else Inl ValueError"
  let ?r1 = "[''node_id'' \<mapsto> Some ''n1'', ''gps_latitude'' \<mapsto> Some '' 37.5 '',
       ''gps_longitude'' \<mapsto> Some ''abc'']"
  let ?r2 = "[''node_id'' \<mapsto> Some ''n2'', ''gps_latitude'' \<mapsto> Some ''None'']"
  have h: "\<forall>t e. ?pf t = Inl e \<longrightarrow> e = ValueError" by simp
  have c: "\<forall>r \<in> set [?r1, ?r2]. row_get r ''gps_latitude'' '''' \<noteq> None \<and>
                                 row_get r ''gps_longitude'' '''' \<noteq> None"
    by (simp add: row_get_def)
  note t = coordinate_coercion [OF h, of _ _ _ "[?r1, ?r2]", THEN conjunct2, THEN conjunct1,
      THEN mp, OF c]
  have v: "spec_coordinate ?pf '' 37.5 '' = Some 37.5" "spec_coordinate ?pf ''abc'' = None"
    "spec_coordinate ?pf ''None'' = None" "spec_coordinate ?pf '''' = None"
    by (simp_all add: spec_coordinate_def strip_def isspace_def)
  have 1: "read_map_data ?pf [?r1, ?r2] = ([], snd (read_map_data ?pf [?r1, ?r2]))"
    using t [THEN conjunct1] by (simp add: prod_eq_iff)
  have 2: "map latitude (snd (read_map_data ?pf [?r1, ?r2])) = [Some 37.5, None]"
    unfolding t [THEN conjunct2, THEN conjunct1] by (simp add: row_get_def py_str_def v)
  have 3: "map longitude (snd (read_map_data ?pf [?r1, ?r2])) = [None, None]"
    unfolding t [THEN conjunct2, THEN conjunct2] by (simp add: row_get_def py_str_def v)
  show ?thesis by (intro conjI) (fact 1 2 3)+
qed


section \<open>The lines of the text report\<close>

text \<open>
  The report is the error of the grouping loop, or the six sections in order. The
  lemmas of this section say which lines each section can hold, and from which nodes
  the lines of the whole report come.
\<close>

lemma print_geographic_summary_eq:
  "print_geographic_summary nodes sid =
     (if \<exists>n \<in> set nodes. node_id n = None then Inl TypeError
      else Inr (header_lines nodes sid @ change_summary_lines nodes @
                country_lines (grouped country_of node_info_of nodes) @
                regional_lines (grouped region_key node_info_of nodes) @
                constraint_lines nodes @ footer_lines))"
  by (simp add: print_geographic_summary_def analyze_eq)

lemma country_lines_shape:
  "l \<in> set (country_lines cs) \<Longrightarrow> l = CountryHeader \<or> l = Blank \<or> (\<exists>c n d. l = CountryLine c n d)"
  by (auto simp: country_lines_def country_summary_def set_sorted_reverse)

lemma node_lines_shape:
  "l \<in> set (node_lines i) \<Longrightarrow> (\<exists>ic nid ci vm. l = NodeLine ic nid ci vm) \<or> (\<exists>t. l = ViolationText t)"
  by (auto simp: node_lines_def Let_def split: if_splits)

lemma regional_lines_member:
  "l \<in> set (regional_lines rs) \<Longrightarrow>
     l = RegionalHeader \<or> l = Blank \<or> (\<exists>r n. l = RegionLine r n) \<or> (\<exists>d. l = DatacenterLine d) \<or>
     (\<exists>r rnodes d dnodes i. (r, rnodes) \<in> set rs \<and> (d, dnodes) \<in> set (dc_groups rnodes) \<and>
        i \<in> set dnodes \<and> l \<in> set (node_lines i))"
  by (fastforce simp: regional_lines_def split: if_splits)

lemma header_lines_shape:
  "l \<in> set (header_lines nodes sid) \<Longrightarrow>
     l = Rule \<or> l = Title \<or> l = SubnetLine sid \<or> l = TotalNodes (length nodes) \<or> l = Blank"
  by (auto simp: header_lines_def split: if_splits)

lemma change_summary_lines_shape:
  "l \<in> set (change_summary_lines nodes) \<Longrightarrow>
     l = ChangeSummaryHeader \<or> l = Blank \<or> l = ViolationsLine (violation_count nodes) \<or>
     (\<exists>ct k. (ct, k) \<in> set (Counter (map change_type nodes)) \<and>
             l = ChangeLine (colors_get ct) (py_str ct) k)"
  by (auto simp: change_summary_lines_def Let_def split: if_splits)

lemma group_lines_shape:
  "l \<in> set (concat (map group_lines vs)) \<Longrightarrow>
     (\<exists>k c. l = GroupLine k c) \<or>
     (\<exists>key ns n. (key, ns) \<in> set vs \<and> n \<in> set ns \<and>
        l = MemberLine (colors_get (change_type n)) (py_str (node_id n)))"
proof -
  assume "l \<in> set (concat (map group_lines vs))"
  then obtain key ns where v: "(key, ns) \<in> set vs" and l: "l \<in> set (group_lines (key, ns))"
    by auto
  from l have "l = GroupLine (py_str key) (length ns) \<or>
               (\<exists>n \<in> set ns. l = MemberLine (colors_get (change_type n)) (py_str (node_id n)))"
    by auto
  with v show ?thesis by blast
qed

lemma constraint_lines_shape:
  "l \<in> set (constraint_lines nodes) \<Longrightarrow>
     l = Blank \<or> l = Rule \<or> l = ConstraintHeader \<or> l = DcViolationsHeader \<or>
     l = OwnerViolationsHeader \<or> l = NoViolationsNotice \<or> l = ProviderNote \<or>
     (\<exists>k c. l = GroupLine k c) \<or>
     (\<exists>key ns n. ((key, ns) \<in> set (dc_violations nodes) \<or>
                   (key, ns) \<in> set (owner_violations nodes)) \<and> n \<in> set ns \<and>
        l = MemberLine (colors_get (change_type n)) (py_str (node_id n)))"
proof -
  assume "l \<in> set (constraint_lines nodes)"
  then consider "l \<in> set [Blank, Rule, ConstraintHeader, Rule, DcViolationsHeader,
                           OwnerViolationsHeader, NoViolationsNotice, ProviderNote]"
    | "l \<in> set (concat (map group_lines (dc_violations nodes)))"
    | "l \<in> set (concat (map group_lines (owner_violations nodes)))"
    unfolding constraint_lines_def by (auto simp del: set_concat split: if_splits)
  then show ?thesis
  proof cases
    case 1
    then show ?thesis by auto
  next
    case 2
    from group_lines_shape [OF this] show ?thesis by blast
  next
    case 3
    from group_lines_shape [OF this] show ?thesis by blast
  qed
qed

lemma footer_lines_shape:
  "l \<in> set footer_lines \<Longrightarrow> l = Rule \<or> l = Tip1 \<or> l = Tip2"
  by (auto simp: footer_lines_def)

lemma dc_groups_subset:
  "(d, dnodes) \<in> set (dc_groups rnodes) \<Longrightarrow> set dnodes \<subseteq> set rnodes"
  unfolding dc_groups_def fold_dd_append [of _ "\<lambda>n. n"] by (auto simp: grouped_member)

lemma grouped_values_subset:
  "(k, vs) \<in> set (grouped key val xs) \<Longrightarrow> set vs \<subseteq> val ` set xs"
  by (auto simp: grouped_member)

lemma report_exists:
  "\<forall>n \<in> set nodes. node_id n \<noteq> None \<Longrightarrow>
   print_geographic_summary nodes sid =
     Inr (header_lines nodes sid @ change_summary_lines nodes @
          country_lines (grouped country_of node_info_of nodes) @
          regional_lines (grouped region_key node_info_of nodes) @
          constraint_lines nodes @ footer_lines)"
  by (simp add: print_geographic_summary_eq)

lemma report_raises_iff:
  "print_geographic_summary nodes sid = Inl e \<longleftrightarrow> e = TypeError \<and> (\<exists>n \<in> set nodes. node_id n = None)"
  by (auto simp: print_geographic_summary_eq)


lemma report_sections:
  assumes "print_geographic_summary nodes sid = Inr ls" and "l \<in> set ls"
  shows "l \<in> set (header_lines nodes sid) \<or> l \<in> set (change_summary_lines nodes) \<or>
         l \<in> set (country_lines (grouped country_of node_info_of nodes)) \<or>
         l \<in> set (regional_lines (grouped region_key node_info_of nodes)) \<or>
         l \<in> set (constraint_lines nodes) \<or> l \<in> set footer_lines"
  using assms unfolding print_geographic_summary_eq
  by (auto simp del: set_concat split: if_splits)


lemma regional_node_lines:
  assumes "l \<in> set (regional_lines (grouped region_key node_info_of nodes))"
      and "(\<exists>ic nid ci vm. l = NodeLine ic nid ci vm) \<or> (\<exists>t. l = ViolationText t)"
  shows "\<exists>n \<in> set nodes. l \<in> set (node_lines (node_info_of n))"
proof -
  from regional_lines_member [OF assms(1)] assms(2)
  obtain r rnodes d dnodes i where
    r: "(r, rnodes) \<in> set (grouped region_key node_info_of nodes)" and
    d: "(d, dnodes) \<in> set (dc_groups rnodes)" and i: "i \<in> set dnodes" and
    l: "l \<in> set (node_lines i)"
    by auto
  from dc_groups_subset [OF d] i have "i \<in> set rnodes" by blast
  with grouped_values_subset [OF r] obtain n where "n \<in> set nodes" "i = node_info_of n"
    by blast
  with l show ?thesis by blast
qed


lemma report_ViolationText:
  assumes "print_geographic_summary nodes sid = Inr ls" and "ViolationText t \<in> set ls"
  shows "\<exists>n \<in> set nodes. in_violation (constraint_violation n) \<and>
           t = py_str (constraint_violation n)"
proof -
  from report_sections [OF assms]
  have "ViolationText t \<in> set (regional_lines (grouped region_key node_info_of nodes))"
    by (auto dest: header_lines_shape country_lines_shape change_summary_lines_shape
        constraint_lines_shape footer_lines_shape)
  from regional_node_lines [OF this] obtain n where
    n: "n \<in> set nodes" and l: "ViolationText t \<in> set (node_lines (node_info_of n))"
    by blast
  from l have "in_violation (constraint_violation n) \<and> t = py_str (constraint_violation n)"
    by (auto simp: node_lines_def Let_def node_info_of_def is_violating_iff split: if_splits)
  with n show ?thesis by blast
qed


lemma report_ViolationsLine:
  assumes "print_geographic_summary nodes sid = Inr ls"
  shows "ViolationsLine k \<in> set ls \<longleftrightarrow>
           k = length [n \<leftarrow> nodes. in_violation (constraint_violation n)] \<and> 0 < k"
proof -
  have "ViolationsLine k \<in> set ls \<longleftrightarrow> ViolationsLine k \<in> set (change_summary_lines nodes)"
  proof
    assume "ViolationsLine k \<in> set ls"
    from report_sections [OF assms this] show "ViolationsLine k \<in> set (change_summary_lines nodes)"
      by (auto dest: header_lines_shape country_lines_shape regional_lines_member
          node_lines_shape constraint_lines_shape footer_lines_shape)
  next
    assume "ViolationsLine k \<in> set (change_summary_lines nodes)"
    then show "ViolationsLine k \<in> set ls"
      using assms unfolding print_geographic_summary_eq by (auto split: if_splits)
  qed
  then show ?thesis
    by (simp add: ViolationsLine_member violation_count_def is_violating_iff)
qed

lemma country_lines_CountryLine:
  "CountryLine c m d \<in> set (country_lines cs) \<Longrightarrow>
     \<exists>cn. (c, cn) \<in> set cs \<and> c \<noteq> [] \<and> m = length cn \<and> d = country_details cn"
  by (auto simp: country_lines_def country_summary_def set_sorted_reverse)

lemma report_CountryLine:
  assumes "print_geographic_summary nodes sid = Inr ls" and "CountryLine c m d \<in> set ls"
  shows "c \<in> country_of ` set nodes \<and> c \<noteq> [] \<and> m = length [n \<leftarrow> nodes. country_of n = c] \<and>
         d = country_details (map node_info_of [n \<leftarrow> nodes. country_of n = c])"
proof -
  from report_sections [OF assms]
  have "CountryLine c m d \<in> set (country_lines (grouped country_of node_info_of nodes))"
    by (auto dest: header_lines_shape change_summary_lines_shape regional_lines_member
        node_lines_shape constraint_lines_shape footer_lines_shape)
  from country_lines_CountryLine [OF this] show ?thesis
    by (auto simp: grouped_member)
qed

lemma report_ViolationDetail:
  assumes "print_geographic_summary nodes sid = Inr ls" and "CountryLine c m (Some ds) \<in> set ls"
      and "ViolationDetail j \<in> set ds"
  shows "j = length [n \<leftarrow> nodes. country_of n = c \<and> in_violation (constraint_violation n)] \<and> 0 < j"
proof -
  let ?cn = "map node_info_of [n \<leftarrow> nodes. country_of n = c]"
  from report_CountryLine [OF assms(1,2)] have "country_details ?cn = Some ds" by simp
  with assms(3) have j: "j = length [i \<leftarrow> ?cn. is_violating (violations i)] \<and> 0 < j"
    using country_details_violations [of ?cn j] by blast
  have e: "[i \<leftarrow> ?cn. is_violating (violations i)] =
        map node_info_of [n \<leftarrow> nodes. country_of n = c \<and> in_violation (constraint_violation n)]"
    by (simp add: filter_map comp_def node_info_of_def is_violating_iff conj_commute)
  show ?thesis using j unfolding e length_map by blast
qed


lemma printed_countries_append:
  "printed_countries (xs @ ys) = printed_countries xs @ printed_countries ys"
  by (simp add: printed_countries_def)

lemma printed_countries_none:
  "(\<And>l. l \<in> set xs \<Longrightarrow> \<forall>c n d. l \<noteq> CountryLine c n d) \<Longrightarrow> printed_countries xs = []"
  by (induction xs) (auto simp: printed_countries_def split: line.splits)

lemma printed_countries_header: "printed_countries (header_lines nodes sid) = []"
  by (rule printed_countries_none) (auto dest: header_lines_shape)

lemma printed_countries_change: "printed_countries (change_summary_lines nodes) = []"
  by (rule printed_countries_none) (auto dest: change_summary_lines_shape)

lemma printed_countries_regional: "printed_countries (regional_lines rs) = []"
  by (rule printed_countries_none) (auto dest!: regional_lines_member dest: node_lines_shape)

lemma printed_countries_constraint: "printed_countries (constraint_lines nodes) = []"
  by (rule printed_countries_none) (auto dest!: constraint_lines_shape)

lemma printed_countries_footer: "printed_countries footer_lines = []"
  by (simp add: printed_countries_def footer_lines_def)

lemma printed_countries_summary:
  "printed_countries (map (\<lambda>(country, count, summary). summary) (map (\<lambda>c. (c, f c, CountryLine c (f c) (g c))) cs)) =
     map (\<lambda>c. (c, f c)) cs"
  by (induction cs) (simp_all add: printed_countries_def)

lemma country_summary_grouped:
  "country_summary (grouped country_of node_info_of nodes) =
     map (\<lambda>c. (c, length [n \<leftarrow> nodes. country_of n = c],
                CountryLine c (length [n \<leftarrow> nodes. country_of n = c])
                  (country_details (map node_info_of [n \<leftarrow> nodes. country_of n = c]))))
         [c \<leftarrow> first_occ (map country_of nodes). c \<noteq> []]"
  by (simp add: country_summary_def grouped_def filter_map comp_def)

lemma insort_desc_map:
  "insort_desc key (F x) (map F ys) = map F (insort_desc (\<lambda>y. key (F y)) x ys)"
  by (induction ys) auto

lemma sorted_reverse_map:
  "sorted_reverse key (map F xs) = map F (sorted_reverse (\<lambda>y. key (F y)) xs)"
  by (induction xs) (simp_all add: sorted_reverse_Nil sorted_reverse_Cons insort_desc_map)

lemma distinct_insort_desc: "distinct (insort_desc key x ys) \<longleftrightarrow> x \<notin> set ys \<and> distinct ys"
  by (induction ys) (auto simp: set_insort_desc)

lemma distinct_sorted_reverse: "distinct (sorted_reverse key xs) \<longleftrightarrow> distinct xs"
  by (induction xs)
     (simp_all add: sorted_reverse_Nil sorted_reverse_Cons distinct_insort_desc set_sorted_reverse)

lemma report_printed_countries:
  assumes "print_geographic_summary nodes sid = Inr ls"
  shows "printed_countries ls =
           map (\<lambda>c. (c, length [n \<leftarrow> nodes. country_of n = c]))
               (sorted_reverse (\<lambda>c. length [n \<leftarrow> nodes. country_of n = c])
                  [c \<leftarrow> first_occ (map country_of nodes). c \<noteq> []])"
proof -
  let ?cnt = "\<lambda>c. length [n \<leftarrow> nodes. country_of n = c]"
  let ?F = "\<lambda>c. (c, ?cnt c, CountryLine c (?cnt c)
                    (country_details (map node_info_of [n \<leftarrow> nodes. country_of n = c])))"
  let ?CS = "[c \<leftarrow> first_occ (map country_of nodes). c \<noteq> []]"
  have ls: "ls = header_lines nodes sid @ change_summary_lines nodes @
                country_lines (grouped country_of node_info_of nodes) @
                regional_lines (grouped region_key node_info_of nodes) @
                constraint_lines nodes @ footer_lines"
    using assms unfolding print_geographic_summary_eq by (simp split: if_splits)
  have "printed_countries ls = printed_countries (country_lines (grouped country_of node_info_of nodes))"
    unfolding ls
    by (simp add: printed_countries_append printed_countries_header printed_countries_change
        printed_countries_regional printed_countries_constraint printed_countries_footer)
  also have "\<dots> = printed_countries (map (\<lambda>(country, count, summary). summary)
                      (sorted_reverse (\<lambda>(country, count, summary). count) (map ?F ?CS)))"
    unfolding country_lines_def country_summary_grouped
    by (simp add: printed_countries_append) (simp add: printed_countries_def)
  also have "sorted_reverse (\<lambda>(country, count, summary). count) (map ?F ?CS) =
             map ?F (sorted_reverse ?cnt ?CS)"
    by (simp add: sorted_reverse_map)
  also have "printed_countries (map (\<lambda>(country, count, summary). summary)
               (map ?F (sorted_reverse ?cnt ?CS))) = map (\<lambda>c. (c, ?cnt c)) (sorted_reverse ?cnt ?CS)"
    by (rule printed_countries_summary)
  finally show ?thesis .
qed


lemma report_constraint:
  "print_geographic_summary nodes sid = Inr ls \<Longrightarrow> l \<in> set (constraint_lines nodes) \<Longrightarrow>
   l \<in> set ls"
  unfolding print_geographic_summary_eq by (auto split: if_splits)

lemma report_GroupLine:
  assumes "print_geographic_summary nodes sid = Inr ls"
  shows "GroupLine k c \<in> set ls \<longleftrightarrow> GroupLine k c \<in> set (constraint_lines nodes)"
proof
  assume "GroupLine k c \<in> set ls"
  from report_sections [OF assms this] show "GroupLine k c \<in> set (constraint_lines nodes)"
    by (auto dest: header_lines_shape change_summary_lines_shape country_lines_shape
        regional_lines_member node_lines_shape footer_lines_shape)
next
  assume "GroupLine k c \<in> set (constraint_lines nodes)"
  then show "GroupLine k c \<in> set ls" by (rule report_constraint [OF assms])
qed


section \<open>Structural violations\<close>

text \<open>
  C1. A datacenter key is flagged in the constraint analysis exactly when more than one
  node that is not \<^verbatim>\<open>REMOVED\<close> has that \<^verbatim>\<open>dc_id\<close>; its group is then the list of
  those nodes in input order, so its count is their number. The same holds for owners
  and \<^verbatim>\<open>dc_owner\<close>. A key is flagged at most once, and the count lines of a report are
  exactly those of the flagged groups.
\<close>

theorem structural_violation_iff:
  "((dc, ns) \<in> set (dc_violations nodes) \<longleftrightarrow>
      ns = [n \<leftarrow> nodes. change_type n \<noteq> Some ''REMOVED'' \<and> dc_id n = dc] \<and> 1 < length ns) \<and>
   ((ow, ms) \<in> set (owner_violations nodes) \<longleftrightarrow>
      ms = [n \<leftarrow> nodes. change_type n \<noteq> Some ''REMOVED'' \<and> dc_owner n = ow] \<and> 1 < length ms) \<and>
   distinct (map fst (dc_violations nodes)) \<and>
   distinct (map fst (owner_violations nodes)) \<and>
   (print_geographic_summary nodes sid = Inr ls \<longrightarrow>
      (GroupLine k c \<in> set ls \<longleftrightarrow>
         (\<exists>key members.
            ((key, members) \<in> set (dc_violations nodes) \<or>
             (key, members) \<in> set (owner_violations nodes)) \<and>
            k = py_str key \<and> c = length members)))"
  using dc_violations_member [of dc ns nodes] owner_violations_member [of ow ms nodes]
    dc_violations_distinct [of nodes] owner_violations_distinct [of nodes]
    constraint_lines_GroupLine [of k c nodes] report_GroupLine [of nodes sid ls k c]
  unfolding is_active_def by blast

text \<open>
  Two nodes that are not removed and share \<^verbatim>\<open>dc1\<close> give a flagged group of two, also
  with a removed node of the same datacenter between them, and the report prints its
  count line; one node alone is not flagged; a removed node and one active node are
  not flagged.
\<close>

theorem structural_violation_examples:
  "(\<exists>ls. print_geographic_summary
          [sample_node ''n1'' ''dc1'' ''OwnerA'' ''NA,US,NYC'' ''UNCHANGED'',
           sample_node ''n3'' ''dc1'' ''OwnerC'' ''NA,US,NYC'' ''REMOVED'',
           sample_node ''n2'' ''dc1'' ''OwnerB'' ''NA,US,NYC'' ''ADDED''] [] = Inr ls \<and>
         GroupLine ''dc1'' 2 \<in> set ls) \<and>
   (Some ''dc1'',
      [sample_node ''n1'' ''dc1'' ''OwnerA'' ''NA,US,NYC'' ''UNCHANGED'',
       sample_node ''n2'' ''dc1'' ''OwnerB'' ''NA,US,NYC'' ''ADDED''])
     \<in> set (dc_violations
         [sample_node ''n1'' ''dc1'' ''OwnerA'' ''NA,US,NYC'' ''UNCHANGED'',
          sample_node ''n3'' ''dc1'' ''OwnerC'' ''NA,US,NYC'' ''REMOVED'',
          sample_node ''n2'' ''dc1'' ''OwnerB'' ''NA,US,NYC'' ''ADDED'']) \<and>
   dc_violations [sample_node ''n1'' ''dc1'' ''OwnerA'' ''NA,US,NYC'' ''UNCHANGED''] = [] \<and>
   dc_violations
     [sample_node ''n3'' ''dc1'' ''OwnerC'' ''NA,US,NYC'' ''REMOVED'',
      sample_node ''n1'' ''dc1'' ''OwnerA'' ''NA,US,NYC'' ''UNCHANGED''] = []"
proof -
  let ?a = "sample_node ''n1'' ''dc1'' ''OwnerA'' ''NA,US,NYC'' ''UNCHANGED''"
  let ?r = "sample_node ''n3'' ''dc1'' ''OwnerC'' ''NA,US,NYC'' ''REMOVED''"
  let ?b = "sample_node ''n2'' ''dc1'' ''OwnerB'' ''NA,US,NYC'' ''ADDED''"
  have "\<forall>n \<in> set [?a, ?r, ?b]. node_id n \<noteq> None" by (simp add: sample_node_def)
  from report_exists [OF this, of "[]"] obtain ls where
    ls: "print_geographic_summary [?a, ?r, ?b] [] = Inr ls" by (rule that)
  note t = structural_violation_iff [where nodes = "[?a, ?r, ?b]" and dc = "Some ''dc1''"
      and ns = "[?a, ?b]" and sid = "[]" and ls = ls and k = "''dc1''" and c = 2]
  have m: "(Some ''dc1'', [?a, ?b]) \<in> set (dc_violations [?a, ?r, ?b])"
    unfolding t [THEN conjunct1] by (simp add: sample_node_def)
  have "\<exists>key members.
            ((key, members) \<in> set (dc_violations [?a, ?r, ?b]) \<or>
             (key, members) \<in> set (owner_violations [?a, ?r, ?b])) \<and>
            ''dc1'' = py_str key \<and> 2 = length members"
    by (intro exI [of _ "Some ''dc1''"] exI [of _ "[?a, ?b]"] conjI disjI1 m)
       (simp_all add: py_str_def)
  then have g: "GroupLine ''dc1'' 2 \<in> set ls"
    unfolding t [THEN conjunct2, THEN conjunct2, THEN conjunct2, THEN conjunct2, THEN mp, OF ls] .
  have e1: "dc_violations [?a] = []" by (simp add: dc_violations_def sample_node_def)
  have e2: "dc_violations [?r, ?a] = []" by (simp add: dc_violations_def sample_node_def)
  have p: "\<exists>ls. print_geographic_summary [?a, ?r, ?b] [] = Inr ls \<and> GroupLine ''dc1'' 2 \<in> set ls"
    by (intro exI [of _ ls] conjI) (fact ls g)+
  show ?thesis by (intro conjI) (fact p m e1 e2)+
qed

text \<open>
  C10. Two or more nodes that are not \<^verbatim>\<open>REMOVED\<close> and whose \<^verbatim>\<open>dc_id\<close> (or
  \<^verbatim>\<open>dc_owner\<close>) is the empty string form a flagged group under the empty key, and its
  count line is printed. The loader gives every record the empty string when the column
  is absent from the rows.
\<close>

theorem empty_key_flagged:
  "(2 \<le> length [n \<leftarrow> nodes. change_type n \<noteq> Some ''REMOVED'' \<and> dc_id n = Some ''''] \<longrightarrow>
      (Some '''', [n \<leftarrow> nodes. change_type n \<noteq> Some ''REMOVED'' \<and> dc_id n = Some ''''])
        \<in> set (dc_violations nodes) \<and>
      GroupLine '''' (length [n \<leftarrow> nodes. change_type n \<noteq> Some ''REMOVED'' \<and> dc_id n = Some ''''])
        \<in> set (constraint_lines nodes)) \<and>
   (2 \<le> length [n \<leftarrow> nodes. change_type n \<noteq> Some ''REMOVED'' \<and> dc_owner n = Some ''''] \<longrightarrow>
      (Some '''', [n \<leftarrow> nodes. change_type n \<noteq> Some ''REMOVED'' \<and> dc_owner n = Some ''''])
        \<in> set (owner_violations nodes) \<and>
      GroupLine '''' (length [n \<leftarrow> nodes. change_type n \<noteq> Some ''REMOVED'' \<and> dc_owner n = Some ''''])
        \<in> set (constraint_lines nodes)) \<and>
   ((\<forall>r \<in> set rows. r ''node_operator_dc'' = None) \<longrightarrow>
      (\<forall>n \<in> set (read_subnet_data rows). dc_id n = Some '''')) \<and>
   ((\<forall>r \<in> set rows. r ''dc_owner'' = None) \<longrightarrow>
      (\<forall>n \<in> set (read_subnet_data rows). dc_owner n = Some ''''))"
proof -
  let ?D = "[n \<leftarrow> nodes. change_type n \<noteq> Some ''REMOVED'' \<and> dc_id n = Some '''']"
  let ?O = "[n \<leftarrow> nodes. change_type n \<noteq> Some ''REMOVED'' \<and> dc_owner n = Some '''']"
  have d: "(Some '''', ?D) \<in> set (dc_violations nodes)" if "2 \<le> length ?D"
    using that dc_violations_member [of "Some ''''" ?D nodes] by (simp add: is_active_def)
  have o: "(Some '''', ?O) \<in> set (owner_violations nodes)" if "2 \<le> length ?O"
    using that owner_violations_member [of "Some ''''" ?O nodes] by (simp add: is_active_def)
  have dl: "GroupLine '''' (length ?D) \<in> set (constraint_lines nodes)" if "2 \<le> length ?D"
  proof -
    have "\<exists>key ns. ((key, ns) \<in> set (dc_violations nodes) \<or>
                     (key, ns) \<in> set (owner_violations nodes)) \<and>
                    '''' = py_str key \<and> length ?D = length ns"
      using d [OF that]
      by (intro exI [of _ "Some ''''"] exI [of _ "?D"]) (simp add: py_str_def)
    then show ?thesis by (simp only: constraint_lines_GroupLine)
  qed
  have ol: "GroupLine '''' (length ?O) \<in> set (constraint_lines nodes)" if "2 \<le> length ?O"
  proof -
    have "\<exists>key ns. ((key, ns) \<in> set (dc_violations nodes) \<or>
                     (key, ns) \<in> set (owner_violations nodes)) \<and>
                    '''' = py_str key \<and> length ?O = length ns"
      using o [OF that]
      by (intro exI [of _ "Some ''''"] exI [of _ "?O"]) (simp add: py_str_def)
    then show ?thesis by (simp only: constraint_lines_GroupLine)
  qed
  have ld: "\<forall>n \<in> set (read_subnet_data rows). dc_id n = Some ''''"
    if "\<forall>r \<in> set rows. r ''node_operator_dc'' = None"
    using that by (auto simp: read_subnet_data_def row_get_def)
  have lo: "\<forall>n \<in> set (read_subnet_data rows). dc_owner n = Some ''''"
    if "\<forall>r \<in> set rows. r ''dc_owner'' = None"
    using that by (auto simp: read_subnet_data_def row_get_def)
  show ?thesis using d dl o ol ld lo by blast
qed

text \<open>Two rows with neither column: both groupings flag the empty key with two nodes.\<close>

theorem empty_key_flagged_example:
  "(Some '''', read_subnet_data [[''node_id'' \<mapsto> Some ''n1''], [''node_id'' \<mapsto> Some ''n2'']])
     \<in> set (dc_violations
         (read_subnet_data [[''node_id'' \<mapsto> Some ''n1''], [''node_id'' \<mapsto> Some ''n2'']])) \<and>
   GroupLine '''' 2
     \<in> set (constraint_lines
         (read_subnet_data [[''node_id'' \<mapsto> Some ''n1''], [''node_id'' \<mapsto> Some ''n2'']])) \<and>
   (Some '''', read_subnet_data [[''node_id'' \<mapsto> Some ''n1''], [''node_id'' \<mapsto> Some ''n2'']])
     \<in> set (owner_violations
         (read_subnet_data [[''node_id'' \<mapsto> Some ''n1''], [''node_id'' \<mapsto> Some ''n2'']]))"
  using empty_key_flagged
    [of "read_subnet_data [[''node_id'' \<mapsto> Some ''n1''], [''node_id'' \<mapsto> Some ''n2'']]"
        "[[''node_id'' \<mapsto> Some ''n1''], [''node_id'' \<mapsto> Some ''n2'']]"]
  by (simp add: read_subnet_data_def row_get_def numeral_2_eq_2)


section \<open>Which nodes a report prints\<close>

text \<open>
  The country lines of a report are those of the non-empty countries of the input, and
  its node lines are those of the nodes whose region key is not the bare comma.
\<close>

lemma report_country_lines:
  "print_geographic_summary nodes sid = Inr ls \<Longrightarrow>
   l \<in> set (country_lines (grouped country_of node_info_of nodes)) \<Longrightarrow> l \<in> set ls"
  unfolding print_geographic_summary_eq by (auto simp del: set_concat split: if_splits)

lemma report_regional_lines:
  "print_geographic_summary nodes sid = Inr ls \<Longrightarrow>
   l \<in> set (regional_lines (grouped region_key node_info_of nodes)) \<Longrightarrow> l \<in> set ls"
  unfolding print_geographic_summary_eq by (auto simp del: set_concat split: if_splits)

lemma country_lines_CountryLine_iff:
  "CountryLine c m d \<in> set (country_lines cs) \<longleftrightarrow>
     (\<exists>cn. (c, cn) \<in> set cs \<and> c \<noteq> [] \<and> m = length cn \<and> d = country_details cn)"
  by (auto simp: country_lines_def country_summary_def set_sorted_reverse image_iff)

lemma report_CountryLine_iff:
  assumes "print_geographic_summary nodes sid = Inr ls"
  shows "CountryLine c m d \<in> set ls \<longleftrightarrow>
           c \<in> country_of ` set nodes \<and> c \<noteq> [] \<and> m = length [n \<leftarrow> nodes. country_of n = c] \<and>
           d = country_details (map node_info_of [n \<leftarrow> nodes. country_of n = c])"
proof
  assume "CountryLine c m d \<in> set ls"
  from report_CountryLine [OF assms this]
  show "c \<in> country_of ` set nodes \<and> c \<noteq> [] \<and> m = length [n \<leftarrow> nodes. country_of n = c] \<and>
           d = country_details (map node_info_of [n \<leftarrow> nodes. country_of n = c])" .
next
  assume r: "c \<in> country_of ` set nodes \<and> c \<noteq> [] \<and> m = length [n \<leftarrow> nodes. country_of n = c] \<and>
           d = country_details (map node_info_of [n \<leftarrow> nodes. country_of n = c])"
  then have "(c, map node_info_of [n \<leftarrow> nodes. country_of n = c])
               \<in> set (grouped country_of node_info_of nodes)"
    by (simp add: grouped_member)
  with r have "CountryLine c m d \<in> set (country_lines (grouped country_of node_info_of nodes))"
    unfolding country_lines_CountryLine_iff
    by (intro exI [of _ "map node_info_of [n \<leftarrow> nodes. country_of n = c]"]) simp
  then show "CountryLine c m d \<in> set ls" by (rule report_country_lines [OF assms])
qed

lemma report_ViolationDetail_iff:
  assumes "print_geographic_summary nodes sid = Inr ls"
  shows "(\<exists>m ds. CountryLine c m (Some ds) \<in> set ls \<and> ViolationDetail j \<in> set ds) \<longleftrightarrow>
           c \<noteq> [] \<and>
           j = length [n \<leftarrow> nodes. country_of n = c \<and> in_violation (constraint_violation n)] \<and>
           0 < j"
proof
  assume "\<exists>m ds. CountryLine c m (Some ds) \<in> set ls \<and> ViolationDetail j \<in> set ds"
  then obtain m ds where l: "CountryLine c m (Some ds) \<in> set ls" and j: "ViolationDetail j \<in> set ds"
    by auto
  from report_CountryLine [OF assms l] have "c \<noteq> []" by simp
  with report_ViolationDetail [OF assms l j]
  show "c \<noteq> [] \<and>
        j = length [n \<leftarrow> nodes. country_of n = c \<and> in_violation (constraint_violation n)] \<and> 0 < j"
    by blast
next
  let ?ns = "[n \<leftarrow> nodes. country_of n = c]"
  let ?cn = "map node_info_of ?ns"
  assume r: "c \<noteq> [] \<and>
        j = length [n \<leftarrow> nodes. country_of n = c \<and> in_violation (constraint_violation n)] \<and> 0 < j"
  have e: "[i \<leftarrow> ?cn. is_violating (violations i)] =
        map node_info_of [n \<leftarrow> nodes. country_of n = c \<and> in_violation (constraint_violation n)]"
    by (simp add: filter_map comp_def node_info_of_def is_violating_iff conj_commute)
  from r have "j = length [i \<leftarrow> ?cn. is_violating (violations i)] \<and> 0 < j"
    unfolding e length_map by blast
  with country_details_violations [of ?cn j] obtain ds where
    ds: "country_details ?cn = Some ds" "ViolationDetail j \<in> set ds" by blast
  from r have "[n \<leftarrow> nodes. country_of n = c \<and> in_violation (constraint_violation n)] \<noteq> []"
    by auto
  then obtain n where "n \<in> set nodes" "country_of n = c"
    unfolding filter_empty_conv by blast
  then have "c \<in> country_of ` set nodes" by blast
  with r ds(1) have "CountryLine c (length ?ns) (Some ds) \<in> set ls"
    unfolding report_CountryLine_iff [OF assms] by simp
  with ds(2) show "\<exists>m ds. CountryLine c m (Some ds) \<in> set ls \<and> ViolationDetail j \<in> set ds"
    by blast
qed

lemma region_key_nonempty: "region_key n \<noteq> []"
  by (simp add: region_key_def)

lemma dc_groups_member:
  "i \<in> set rnodes \<Longrightarrow> \<exists>d dnodes. (d, dnodes) \<in> set (dc_groups rnodes) \<and> i \<in> set dnodes"
  unfolding dc_groups_def fold_dd_append [of _ "\<lambda>n. n"]
  by (intro exI [of _ "py_str (info_dc_id i) @ '' ('' @ py_str (info_dc_owner i) @ '')''"]
            exI [of _ "[x \<leftarrow> rnodes. py_str (info_dc_id x) @ '' ('' @ py_str (info_dc_owner x) @ '')'' =
                          py_str (info_dc_id i) @ '' ('' @ py_str (info_dc_owner i) @ '')'']"])
     (simp add: grouped_member)

lemma regional_lines_intro:
  assumes "(r, rnodes) \<in> set rs" and "r \<noteq> []" and "r \<noteq> '',''" and "i \<in> set rnodes"
      and "l \<in> set (node_lines i)"
  shows "l \<in> set (regional_lines rs)"
proof -
  from dc_groups_member [OF assms(4)] obtain d dnodes where
    d: "(d, dnodes) \<in> set (dc_groups rnodes)" and i: "i \<in> set dnodes" by blast
  from i assms(5) have "l \<in> set (datacenter_lines (d, dnodes))" by auto
  with d have "l \<in> set (concat (map datacenter_lines (sort_key fst (dc_groups rnodes))))"
    by (auto simp del: datacenter_lines.simps)
  with assms(2,3) have "l \<in> set (region_lines (r, rnodes))" by (simp del: set_concat)
  with assms(1) have "l \<in> set (concat (map region_lines (sort_key fst rs)))"
    by (auto simp del: region_lines.simps)
  then show ?thesis by (simp add: regional_lines_def del: set_concat)
qed

lemma report_node_lines_intro:
  assumes "print_geographic_summary nodes sid = Inr ls" and "n \<in> set nodes"
      and "region_key n \<noteq> '',''" and "l \<in> set (node_lines (node_info_of n))"
  shows "l \<in> set ls"
proof -
  have g: "(region_key n, map node_info_of [x \<leftarrow> nodes. region_key x = region_key n])
             \<in> set (grouped region_key node_info_of nodes)"
    using assms(2) by (simp add: grouped_member)
  have i: "node_info_of n \<in> set (map node_info_of [x \<leftarrow> nodes. region_key x = region_key n])"
    using assms(2) by simp
  from regional_lines_intro [OF g region_key_nonempty assms(3) i assms(4)]
  show ?thesis by (rule report_regional_lines [OF assms(1)])
qed

lemma regional_node_lines_key:
  assumes "l \<in> set (regional_lines (grouped region_key node_info_of nodes))"
      and "(\<exists>ic nid ci vm. l = NodeLine ic nid ci vm) \<or> (\<exists>t. l = ViolationText t)"
  shows "\<exists>n \<in> set nodes. region_key n \<noteq> '','' \<and> l \<in> set (node_lines (node_info_of n))"
proof -
  let ?rs = "grouped region_key node_info_of nodes"
  from assms(1) have "l = RegionalHeader \<or> l \<in> set (concat (map region_lines (sort_key fst ?rs)))"
    by (simp add: regional_lines_def del: set_concat)
  with assms(2) obtain r rnodes where r: "(r, rnodes) \<in> set ?rs" and
    l: "l \<in> set (region_lines (r, rnodes))"
    by (auto simp del: region_lines.simps)
  from l assms(2) have k: "r \<noteq> '',''" and
    l2: "l \<in> set (concat (map datacenter_lines (sort_key fst (dc_groups rnodes))))"
    by (auto split: if_splits)
  from l2 obtain d dnodes where d: "(d, dnodes) \<in> set (dc_groups rnodes)" and
    l3: "l \<in> set (datacenter_lines (d, dnodes))"
    by (auto simp del: datacenter_lines.simps)
  from l3 assms(2) obtain i where i: "i \<in> set dnodes" and l4: "l \<in> set (node_lines i)"
    by auto
  from dc_groups_subset [OF d] i have "i \<in> set rnodes" by blast
  moreover from r have "rnodes = map node_info_of [x \<leftarrow> nodes. region_key x = r]"
    by (simp add: grouped_member)
  ultimately obtain n where "n \<in> set nodes" "region_key n = r" "i = node_info_of n" by auto
  with k l4 show ?thesis by blast
qed

lemma node_lines_of:
  "node_lines (node_info_of n) =
     NodeLine (colors_get (change_type n)) (take 20 (py_str (node_id n)) @ ''...'')
       (if city_of n \<noteq> [] then '' ('' @ city_of n @ '')'' else [])
       (in_violation (constraint_violation n)) #
     (if in_violation (constraint_violation n)
      then [ViolationText (py_str (constraint_violation n))] else [])"
  by (simp add: node_lines_def node_info_of_def is_violating_iff Let_def)

lemma report_regional_only:
  assumes "print_geographic_summary nodes sid = Inr ls" and "l \<in> set ls"
      and "(\<exists>ic nid ci vm. l = NodeLine ic nid ci vm) \<or> (\<exists>t. l = ViolationText t)"
  shows "l \<in> set (regional_lines (grouped region_key node_info_of nodes))"
  using report_sections [OF assms(1,2)] assms(3)
  by (auto dest: header_lines_shape country_lines_shape change_summary_lines_shape
      constraint_lines_shape footer_lines_shape)

lemma report_NodeLine_iff:
  assumes "print_geographic_summary nodes sid = Inr ls"
  shows "NodeLine ic nid ci vm \<in> set ls \<longleftrightarrow>
           (\<exists>n \<in> set nodes. region_key n \<noteq> '','' \<and> ic = colors_get (change_type n) \<and>
              nid = take 20 (py_str (node_id n)) @ ''...'' \<and>
              ci = (if city_of n \<noteq> [] then '' ('' @ city_of n @ '')'' else []) \<and>
              vm = in_violation (constraint_violation n))"
proof
  assume l: "NodeLine ic nid ci vm \<in> set ls"
  have "NodeLine ic nid ci vm \<in> set (regional_lines (grouped region_key node_info_of nodes))"
    by (rule report_regional_only [OF assms l]) blast
  from regional_node_lines_key [OF this] obtain n where
    n: "n \<in> set nodes" "region_key n \<noteq> '',''" and
    m: "NodeLine ic nid ci vm \<in> set (node_lines (node_info_of n))"
    by blast
  from m have "ic = colors_get (change_type n) \<and>
              nid = take 20 (py_str (node_id n)) @ ''...'' \<and>
              ci = (if city_of n \<noteq> [] then '' ('' @ city_of n @ '')'' else []) \<and>
              vm = in_violation (constraint_violation n)"
    unfolding node_lines_of by (simp split: if_splits)
  with n show "\<exists>n \<in> set nodes. region_key n \<noteq> '','' \<and> ic = colors_get (change_type n) \<and>
              nid = take 20 (py_str (node_id n)) @ ''...'' \<and>
              ci = (if city_of n \<noteq> [] then '' ('' @ city_of n @ '')'' else []) \<and>
              vm = in_violation (constraint_violation n)"
    by blast
next
  assume "\<exists>n \<in> set nodes. region_key n \<noteq> '','' \<and> ic = colors_get (change_type n) \<and>
              nid = take 20 (py_str (node_id n)) @ ''...'' \<and>
              ci = (if city_of n \<noteq> [] then '' ('' @ city_of n @ '')'' else []) \<and>
              vm = in_violation (constraint_violation n)"
  then obtain n where n: "n \<in> set nodes" "region_key n \<noteq> '',''" and
    e: "ic = colors_get (change_type n)" "nid = take 20 (py_str (node_id n)) @ ''...''"
       "ci = (if city_of n \<noteq> [] then '' ('' @ city_of n @ '')'' else [])"
       "vm = in_violation (constraint_violation n)"
    by blast
  have "NodeLine ic nid ci vm \<in> set (node_lines (node_info_of n))"
    unfolding node_lines_of e by simp
  from report_node_lines_intro [OF assms n this] show "NodeLine ic nid ci vm \<in> set ls" .
qed

lemma report_ViolationText_iff:
  assumes "print_geographic_summary nodes sid = Inr ls"
  shows "ViolationText t \<in> set ls \<longleftrightarrow>
           (\<exists>n \<in> set nodes. region_key n \<noteq> '','' \<and> in_violation (constraint_violation n) \<and>
              t = py_str (constraint_violation n))"
proof
  assume l: "ViolationText t \<in> set ls"
  have "ViolationText t \<in> set (regional_lines (grouped region_key node_info_of nodes))"
    by (rule report_regional_only [OF assms l]) blast
  from regional_node_lines_key [OF this] obtain n where
    n: "n \<in> set nodes" "region_key n \<noteq> '',''" and
    m: "ViolationText t \<in> set (node_lines (node_info_of n))"
    by blast
  from m have "in_violation (constraint_violation n) \<and> t = py_str (constraint_violation n)"
    unfolding node_lines_of by (simp split: if_splits)
  with n show "\<exists>n \<in> set nodes. region_key n \<noteq> '','' \<and> in_violation (constraint_violation n) \<and>
              t = py_str (constraint_violation n)"
    by blast
next
  assume "\<exists>n \<in> set nodes. region_key n \<noteq> '','' \<and> in_violation (constraint_violation n) \<and>
              t = py_str (constraint_violation n)"
  then obtain n where n: "n \<in> set nodes" "region_key n \<noteq> '',''" and
    e: "in_violation (constraint_violation n)" "t = py_str (constraint_violation n)"
    by blast
  have "ViolationText t \<in> set (node_lines (node_info_of n))"
    unfolding node_lines_of using e by simp
  from report_node_lines_intro [OF assms n this] show "ViolationText t \<in> set ls" .
qed


section \<open>Violating nodes\<close>

text \<open>
  C2, amended. The test the scripts apply to a \<^verbatim>\<open>constraint_violation\<close> cell holds exactly
  when the cell is a non-empty string other than \<^verbatim>\<open>NO_VIOLATIONS\<close> and \<^verbatim>\<open>REMOVED_NODE\<close>.
  The violation count of the change summary and the count of the map's panel are the
  numbers of violating nodes, whatever their other fields. The country breakdown
  prints a violation count for a country exactly when the country is non-empty and has
  violating nodes, and the count is their number. A node line is printed for every
  node whose region key is not the bare comma, and for no other, with the marker set
  exactly when the node is violating; a violation text line is printed for exactly the
  violating nodes among them.
\<close>

theorem violation_status_iff:
  "(is_violating v \<longleftrightarrow> in_violation v) \<and>
   violation_count nodes = length [n \<leftarrow> nodes. in_violation (constraint_violation n)] \<and>
   panel_violations (generate_html_map mnodes title) =
     length [m \<leftarrow> mnodes. in_violation (m_constraint_violation m)] \<and>
   (print_geographic_summary nodes sid = Inr ls \<longrightarrow>
      (ViolationsLine k \<in> set ls \<longleftrightarrow>
         k = length [n \<leftarrow> nodes. in_violation (constraint_violation n)] \<and> 0 < k) \<and>
      ((\<exists>m ds. CountryLine c m (Some ds) \<in> set ls \<and> ViolationDetail j \<in> set ds) \<longleftrightarrow>
         c \<noteq> [] \<and>
         j = length [n \<leftarrow> nodes. country_of n = c \<and> in_violation (constraint_violation n)] \<and>
         0 < j) \<and>
      ((\<exists>ic ci. NodeLine ic nid ci vm \<in> set ls) \<longleftrightarrow>
         (\<exists>n \<in> set nodes. region_key n \<noteq> '','' \<and>
            nid = take 20 (py_str (node_id n)) @ ''...'' \<and>
            vm = in_violation (constraint_violation n))) \<and>
      (ViolationText t \<in> set ls \<longleftrightarrow>
         (\<exists>n \<in> set nodes. region_key n \<noteq> '','' \<and> in_violation (constraint_violation n) \<and>
            t = py_str (constraint_violation n))))"
proof -
  have 1: "is_violating v \<longleftrightarrow> in_violation v" by (rule is_violating_iff)
  have 2: "violation_count nodes = length [n \<leftarrow> nodes. in_violation (constraint_violation n)]"
    by (simp add: violation_count_def is_violating_iff)
  have 3: "panel_violations (generate_html_map mnodes title) =
     length [m \<leftarrow> mnodes. in_violation (m_constraint_violation m)]"
    by (simp add: generate_html_map_def is_violating_iff)
  have 5: "ViolationsLine k \<in> set ls \<longleftrightarrow>
         k = length [n \<leftarrow> nodes. in_violation (constraint_violation n)] \<and> 0 < k"
    if "print_geographic_summary nodes sid = Inr ls"
    by (rule report_ViolationsLine [OF that])
  have 6: "(\<exists>m ds. CountryLine c m (Some ds) \<in> set ls \<and> ViolationDetail j \<in> set ds) \<longleftrightarrow>
         c \<noteq> [] \<and>
         j = length [n \<leftarrow> nodes. country_of n = c \<and> in_violation (constraint_violation n)] \<and>
         0 < j"
    if "print_geographic_summary nodes sid = Inr ls"
    by (rule report_ViolationDetail_iff [OF that])
  have 7: "(\<exists>ic ci. NodeLine ic nid ci vm \<in> set ls) \<longleftrightarrow>
         (\<exists>n \<in> set nodes. region_key n \<noteq> '','' \<and>
            nid = take 20 (py_str (node_id n)) @ ''...'' \<and>
            vm = in_violation (constraint_violation n))"
    if "print_geographic_summary nodes sid = Inr ls"
    unfolding report_NodeLine_iff [OF that] by blast
  have 8: "ViolationText t \<in> set ls \<longleftrightarrow>
         (\<exists>n \<in> set nodes. region_key n \<noteq> '','' \<and> in_violation (constraint_violation n) \<and>
            t = py_str (constraint_violation n))"
    if "print_geographic_summary nodes sid = Inr ls"
    by (rule report_ViolationText_iff [OF that])
  from 1 2 3 5 6 7 8 show ?thesis by blast
qed

text \<open>
  C2 as stated fails: a node with a violation text and an empty \<^verbatim>\<open>dc_region\<close> is counted
  in the change summary, but its country is empty and its region key is the bare comma,
  so the report has no country line, no node line and no violation text for it.
\<close>

theorem violating_node_unmarked:
  "in_violation (Some ''too close'') \<and>
   print_geographic_summary
     [(sample_node ''n1'' ''dc1'' ''OwnerA'' '''' ''ADDED'')
        \<lparr>constraint_violation := Some ''too close''\<rparr>] [] =
     Inr [Rule, Title, Rule, TotalNodes 1, Blank, ChangeSummaryHeader,
          ChangeLine Green ''ADDED'' 1, ViolationsLine 1, Blank, CountryHeader,
          Blank, RegionalHeader, Blank, Rule, ConstraintHeader, Rule,
          NoViolationsNotice, ProviderNote, Blank, Rule, Tip1, Tip2, Rule]"
  by (simp add: in_violation_def print_geographic_summary_def
      analyze_geographic_distribution_def text_region_def make_info_def short_id_def
      sample_node_def header_lines_def change_summary_lines_def Counter_def colors_get_def
      colors_def py_str_def violation_count_def is_violating_def truthy_def country_lines_def
      country_summary_def sorted_reverse_def regional_lines_def constraint_lines_def
      dc_violations_def owner_violations_def footer_lines_def)

text \<open>
  Two nodes in \<^verbatim>\<open>NA,US,NYC\<close>, the second with a violation text: the summary and the
  country line count one violating node, the second node line carries the marker and
  is followed by the text, the first does not carry it.
\<close>

theorem violation_status_example:
  "\<exists>ls. print_geographic_summary
          [sample_node ''n1'' ''dc1'' ''OwnerA'' ''NA,US,NYC'' ''UNCHANGED'',
           (sample_node ''n2'' ''dc2'' ''OwnerB'' ''NA,US,NYC'' ''ADDED'')
             \<lparr>constraint_violation := Some ''too close''\<rparr>] [] = Inr ls \<and>
        ViolationsLine 1 \<in> set ls \<and> ViolationsLine 2 \<notin> set ls \<and>
        (\<exists>m ds. CountryLine ''US'' m (Some ds) \<in> set ls \<and> ViolationDetail 1 \<in> set ds) \<and>
        (\<exists>ic ci. NodeLine ic ''n2...'' ci True \<in> set ls) \<and>
        (\<exists>ic ci. NodeLine ic ''n1...'' ci False \<in> set ls) \<and>
        ViolationText ''too close'' \<in> set ls"
proof -
  let ?N = "[sample_node ''n1'' ''dc1'' ''OwnerA'' ''NA,US,NYC'' ''UNCHANGED'',
           (sample_node ''n2'' ''dc2'' ''OwnerB'' ''NA,US,NYC'' ''ADDED'')
             \<lparr>constraint_violation := Some ''too close''\<rparr>]"
  have "\<forall>n \<in> set ?N. node_id n \<noteq> None" by (simp add: sample_node_def)
  from report_exists [OF this, of "[]"] obtain ls where
    ls: "print_geographic_summary ?N [] = Inr ls" by (rule that)
  have c: "length [n \<leftarrow> ?N. in_violation (constraint_violation n)] = 1"
    by (simp add: sample_node_def in_violation_def)
  note ev = region_key_def continent_of_def country_of_def text_region_def py_split_def
    strip_def isspace_def sample_node_def in_violation_def py_str_def
  note v1 = violation_status_iff [where nodes = "?N" and sid = "[]" and ls = ls and k = 1
      and c = "''US''" and j = 1 and nid = "''n2...''" and vm = True and t = "''too close''",
      THEN conjunct2, THEN conjunct2, THEN conjunct2, THEN mp, OF ls]
  note v2 = violation_status_iff [where nodes = "?N" and sid = "[]" and ls = ls and k = 2
      and nid = "''n1...''" and vm = False,
      THEN conjunct2, THEN conjunct2, THEN conjunct2, THEN mp, OF ls]
  have a: "ViolationsLine 1 \<in> set ls" unfolding v1 [THEN conjunct1] c by simp
  have b: "ViolationsLine 2 \<notin> set ls" unfolding v2 [THEN conjunct1] c by simp
  have d: "\<exists>m ds. CountryLine ''US'' m (Some ds) \<in> set ls \<and> ViolationDetail 1 \<in> set ds"
    unfolding v1 [THEN conjunct2, THEN conjunct1] by (simp add: ev)
  have e: "\<exists>ic ci. NodeLine ic ''n2...'' ci True \<in> set ls"
    unfolding v1 [THEN conjunct2, THEN conjunct2, THEN conjunct1] by (simp add: ev)
  have f: "\<exists>ic ci. NodeLine ic ''n1...'' ci False \<in> set ls"
    unfolding v2 [THEN conjunct2, THEN conjunct2, THEN conjunct1] by (simp add: ev)
  have g: "ViolationText ''too close'' \<in> set ls"
    unfolding v1 [THEN conjunct2, THEN conjunct2, THEN conjunct2] by (simp add: ev)
  show ?thesis by (intro exI [of _ ls] conjI) (fact ls a b d e f g)+
qed


section \<open>The country distribution\<close>

text \<open>
  C7. In a report, the country lines are sorted by node count in descending order; the
  countries printed with a given count appear in the order in which they were first
  met in the input; each count is the number of nodes of the country; and the countries
  printed are the distinct non-empty countries of the input.
\<close>

theorem country_distribution_order:
  assumes "print_geographic_summary nodes sid = Inr ls"
  shows "sorted_wrt (\<lambda>a b. snd b \<le> snd a) (printed_countries ls) \<and>
         (\<forall>k. map fst [e \<leftarrow> printed_countries ls. snd e = k] =
                [c \<leftarrow> first_occ (map country_of nodes).
                   c \<noteq> [] \<and> length [n \<leftarrow> nodes. country_of n = c] = k]) \<and>
         (\<forall>e \<in> set (printed_countries ls). snd e = length [n \<leftarrow> nodes. country_of n = fst e]) \<and>
         distinct (map fst (printed_countries ls)) \<and>
         set (map fst (printed_countries ls)) = {c \<in> country_of ` set nodes. c \<noteq> []}"
proof -
  let ?cnt = "\<lambda>c. length [n \<leftarrow> nodes. country_of n = c]"
  let ?CS = "[c \<leftarrow> first_occ (map country_of nodes). c \<noteq> []]"
  let ?L = "sorted_reverse ?cnt ?CS"
  have pc: "printed_countries ls = map (\<lambda>c. (c, ?cnt c)) ?L"
    by (rule report_printed_countries [OF assms])
  have "sorted_wrt (\<lambda>a b. ?cnt b \<le> ?cnt a) ?L"
    by (rule sorted_reverse_sorted)
  then have 1: "sorted_wrt (\<lambda>a b. snd b \<le> snd a) (printed_countries ls)"
    unfolding pc by (simp add: sorted_wrt_map)
  have 2: "map fst [e \<leftarrow> printed_countries ls. snd e = k] = [c \<leftarrow> first_occ (map country_of nodes).
                   c \<noteq> [] \<and> ?cnt c = k]" for k
  proof -
    have "map fst [e \<leftarrow> printed_countries ls. snd e = k] = [c \<leftarrow> ?L. ?cnt c = k]"
      unfolding pc by (simp add: filter_map comp_def)
    also have "\<dots> = [c \<leftarrow> ?CS. ?cnt c = k]"
      by (rule sorted_reverse_stable)
    finally show ?thesis by (simp add: conj_commute)
  qed
  have 3: "\<forall>e \<in> set (printed_countries ls). snd e = ?cnt (fst e)"
    unfolding pc by auto
  have m: "map fst (printed_countries ls) = ?L"
    unfolding pc by (simp add: comp_def)
  have 4: "distinct (map fst (printed_countries ls))"
    unfolding m by (simp add: distinct_sorted_reverse distinct_first_occ)
  have 5: "set (map fst (printed_countries ls)) = {c \<in> country_of ` set nodes. c \<noteq> []}"
    unfolding m by (auto simp: set_sorted_reverse set_first_occ)
  from 1 2 3 4 5 show ?thesis by blast
qed

text \<open>
  Four nodes in \<^verbatim>\<open>US\<close>, \<^verbatim>\<open>DE\<close>, \<^verbatim>\<open>FR\<close>, \<^verbatim>\<open>DE\<close>: \<^verbatim>\<open>DE\<close> is printed with two nodes, then
  \<^verbatim>\<open>US\<close> before \<^verbatim>\<open>FR\<close>, which tie with one node each.
\<close>

theorem country_distribution_example:
  "\<exists>ls. print_geographic_summary
          [sample_node ''n1'' ''dc1'' ''OwnerA'' ''NA,US,NYC'' ''UNCHANGED'',
           sample_node ''n2'' ''dc2'' ''OwnerB'' ''EU,DE,FRA'' ''UNCHANGED'',
           sample_node ''n3'' ''dc3'' ''OwnerC'' ''EU,FR,PAR'' ''ADDED'',
           sample_node ''n4'' ''dc4'' ''OwnerD'' ''EU,DE,BER'' ''UNCHANGED''] [] = Inr ls \<and>
        sorted_wrt (\<lambda>a b. snd b \<le> snd a) (printed_countries ls) \<and>
        map fst [e \<leftarrow> printed_countries ls. snd e = 2] = [''DE''] \<and>
        map fst [e \<leftarrow> printed_countries ls. snd e = 1] = [''US'', ''FR'']"
proof -
  let ?N = "[sample_node ''n1'' ''dc1'' ''OwnerA'' ''NA,US,NYC'' ''UNCHANGED'',
           sample_node ''n2'' ''dc2'' ''OwnerB'' ''EU,DE,FRA'' ''UNCHANGED'',
           sample_node ''n3'' ''dc3'' ''OwnerC'' ''EU,FR,PAR'' ''ADDED'',
           sample_node ''n4'' ''dc4'' ''OwnerD'' ''EU,DE,BER'' ''UNCHANGED'']"
  have "\<forall>n \<in> set ?N. node_id n \<noteq> None" by (simp add: sample_node_def)
  from report_exists [OF this, of "[]"] obtain ls where
    ls: "print_geographic_summary ?N [] = Inr ls" by (rule that)
  have c: "map country_of ?N = [''US'', ''DE'', ''FR'', ''DE'']"
    by (simp add: country_of_def sample_node_def text_region_def py_split_def strip_def isspace_def)
  have f: "first_occ [''US'', ''DE'', ''FR'', ''DE''] = [''US'', ''DE'', ''FR'']"
    by (simp add: first_occ_def)
  have n: "\<And>k. length [n \<leftarrow> ?N. country_of n = k] = length [x \<leftarrow> map country_of ?N. x = k]"
    by (simp only: filter_map length_map comp_def)
  note t = country_distribution_order [OF ls]
  have s: "sorted_wrt (\<lambda>a b. snd b \<le> snd a) (printed_countries ls)"
    by (rule t [THEN conjunct1])
  have k2: "map fst [e \<leftarrow> printed_countries ls. snd e = 2] = [''DE'']"
    unfolding t [THEN conjunct2, THEN conjunct1, THEN spec, of 2] n c f by simp
  have k1: "map fst [e \<leftarrow> printed_countries ls. snd e = 1] = [''US'', ''FR'']"
    unfolding t [THEN conjunct2, THEN conjunct1, THEN spec, of 1] n c f by simp
  show ?thesis by (intro exI [of _ ls] conjI) (fact ls s k2 k1)+
qed


section \<open>Change-type markers\<close>





section \<open>Totality of the text report\<close>

text \<open>
  C9. The claim is that no record sequence the loader produces makes the pipeline
  raise. A row shorter than the header (header \<^verbatim>\<open>dc_region,node_id\<close>, data line
  \<^verbatim>\<open>NA\<close>) reaches the loader as a dictionary whose \<^verbatim>\<open>node_id\<close> is \<^verbatim>\<open>None\<close>; the loader
  returns a non-empty sequence, and the text report raises \<^verbatim>\<open>TypeError\<close> on it.
\<close>

theorem short_row_raises:
  "read_subnet_data [[''dc_region'' \<mapsto> Some ''NA'', ''node_id'' \<mapsto> None]] \<noteq> [] \<and>
   main_text (Some [[''dc_region'' \<mapsto> Some ''NA'', ''node_id'' \<mapsto> None]]) [] = Inl TypeError"
  by (simp add: main_text_def read_subnet_data_def row_get_def print_geographic_summary_def
      analyze_geographic_distribution_def text_region_def make_info_def short_id_def)

end
